theory Spec2Isabelle
  imports Complex_Main
begin

section \<open>Python values, exceptions and statements\<close>

text \<open>
  The generator \<^verbatim>\<open>cli/music/generate_ambient.py\<close> is a sequence of statements over two
  pieces of mutable state: the module-level random generator of Python's \<^verbatim>\<open>random\<close>
  and the \<^verbatim>\<open>MIDIFile\<close> object that collects the events. Both are threaded explicitly.
  Python floats are modelled by exact reals, Python integers by \<^typ>\<open>int\<close>.
\<close>

datatype error = KeyError string | IndexError | ValueError

record note_event =
  n_track :: nat
  n_channel :: nat
  n_pitch :: int
  n_time :: real
  n_duration :: real
  n_volume :: int

text \<open>
  The \<^verbatim>\<open>MIDIFile\<close> object of the \<^verbatim>\<open>midiutil\<close> package, as far as the generator uses it:
  it records \<^verbatim>\<open>addTempo(track, time, tempo)\<close>,
  \<^verbatim>\<open>addProgramChange(tracknum, channel, time, program)\<close> and
  \<^verbatim>\<open>addNote(track, channel, pitch, time, duration, volume)\<close> in call order.
\<close>

record midifile =
  numTracks :: nat
  tempos :: "(nat \<times> real \<times> real) list"
  programs :: "(nat \<times> nat \<times> real \<times> nat) list"
  m_notes :: "note_event list"

definition MIDIFile :: "nat \<Rightarrow> midifile" where
  "MIDIFile n = \<lparr>numTracks = n, tempos = [], programs = [], m_notes = []\<rparr>"

text \<open>
  The random generator of the standard library is a parameter: a state type \<open>'g\<close>
  with the three operations the module \<^verbatim>\<open>random\<close> builds everything else from,
  \<^verbatim>\<open>seed(a)\<close>, \<^verbatim>\<open>random()\<close> and \<^verbatim>\<open>_randbelow(n)\<close>.
\<close>

record 'g random_src =
  seed_f :: "int \<Rightarrow> 'g"
  random_f :: "'g \<Rightarrow> real \<times> 'g"
  randbelow_f :: "nat \<Rightarrow> 'g \<Rightarrow> nat \<times> 'g"

text \<open>What the library documents: \<^verbatim>\<open>random()\<close> lies in \<open>[0, 1)\<close> and
  \<^verbatim>\<open>_randbelow(n)\<close> in \<open>[0, n)\<close>.\<close>

definition rng_ok :: "'g random_src \<Rightarrow> bool" where
  "rng_ok R \<longleftrightarrow>
     (\<forall>g. 0 \<le> fst (random_f R g) \<and> fst (random_f R g) < 1) \<and>
     (\<forall>n g. 0 < n \<longrightarrow> fst (randbelow_f R n g) < n)"

record 'g world =
  rng :: 'g
  midi :: midifile

type_synonym ('g, 'a) prog = "'g world \<Rightarrow> error + 'a \<times> 'g world"

definition ret :: "'a \<Rightarrow> ('g, 'a) prog" where
  "ret x s = Inr (x, s)"

definition bnd :: "('g, 'a) prog \<Rightarrow> ('a \<Rightarrow> ('g, 'b) prog) \<Rightarrow> ('g, 'b) prog" where
  "bnd m f s = (case m s of Inl e \<Rightarrow> Inl e | Inr (x, s') \<Rightarrow> f x s')"

definition lift :: "error + 'a \<Rightarrow> ('g, 'a) prog" where
  "lift r s = (case r of Inl e \<Rightarrow> Inl e | Inr x \<Rightarrow> Inr (x, s))"

text \<open>A \<^verbatim>\<open>for\<close> loop over a list; \<open>v\<close> is the variable the loop body assigns.\<close>

primrec for_each :: "'a list \<Rightarrow> ('a \<Rightarrow> 'b \<Rightarrow> ('g, 'b) prog) \<Rightarrow> 'b \<Rightarrow> ('g, 'b) prog" where
  "for_each [] body v = ret v"
| "for_each (x # xs) body v = bnd (body x v) (for_each xs body)"

definition py_range :: "int \<Rightarrow> int list" where
  "py_range n = map int [0..<nat n]"

text \<open>
  The subscript \<^verbatim>\<open>xs[i]\<close>. Python accepts \<open>-len(xs) \<le> i < len(xs)\<close>, reading an index
  below zero from the right end, and raises \<^verbatim>\<open>IndexError\<close> for every other \<open>i\<close>.
\<close>

definition getitem :: "'a list \<Rightarrow> int \<Rightarrow> error + 'a" where
  "getitem xs i =
     (if 0 \<le> i \<and> i < int (length xs) then Inr (xs ! nat i)
      else if - int (length xs) \<le> i \<and> i < 0 then Inr (xs ! nat (int (length xs) + i))
      else Inl IndexError)"

text \<open>\<^verbatim>\<open>xs.index(x)\<close>: the first position of \<open>x\<close>, \<^verbatim>\<open>ValueError\<close> when there is none.\<close>

fun index :: "int list \<Rightarrow> int \<Rightarrow> error + int" where
  "index [] x = Inl ValueError"
| "index (y # ys) x =
     (if y = x then Inr 0
      else case index ys x of Inl e \<Rightarrow> Inl e | Inr k \<Rightarrow> Inr (k + 1))"

text \<open>\<^verbatim>\<open>int(x)\<close> on a float truncates towards zero.\<close>

definition py_int :: "real \<Rightarrow> int" where
  "py_int x = (if 0 \<le> x then \<lfloor>x\<rfloor> else \<lceil>x\<rceil>)"

subsection \<open>The module \<^verbatim>\<open>random\<close>\<close>

definition random_seed :: "'g random_src \<Rightarrow> int \<Rightarrow> 'g \<Rightarrow> 'g" where
  "random_seed R a g = seed_f R a"

definition random_random :: "'g random_src \<Rightarrow> ('g, real) prog" where
  "random_random R s = (case random_f R (rng s) of (u, g') \<Rightarrow> Inr (u, s\<lparr>rng := g'\<rparr>))"

definition randbelow :: "'g random_src \<Rightarrow> nat \<Rightarrow> ('g, nat) prog" where
  "randbelow R n s = (case randbelow_f R n (rng s) of (k, g') \<Rightarrow> Inr (k, s\<lparr>rng := g'\<rparr>))"

text \<open>\<^verbatim>\<open>uniform(a, b)\<close> is \<^verbatim>\<open>a + (b - a) * random()\<close>.\<close>

definition random_uniform :: "'g random_src \<Rightarrow> real \<Rightarrow> real \<Rightarrow> ('g, real) prog" where
  "random_uniform R a b = bnd (random_random R) (\<lambda>u. ret (a + (b - a) * u))"

text \<open>\<^verbatim>\<open>randint(a, b)\<close> is \<^verbatim>\<open>a + _randbelow(b - a + 1)\<close>.\<close>

definition random_randint :: "'g random_src \<Rightarrow> int \<Rightarrow> int \<Rightarrow> ('g, int) prog" where
  "random_randint R a b = bnd (randbelow R (nat (b - a + 1))) (\<lambda>k. ret (a + int k))"

text \<open>\<^verbatim>\<open>choice(seq)\<close> is \<^verbatim>\<open>seq[_randbelow(len(seq))]\<close>, \<^verbatim>\<open>IndexError\<close> on an empty sequence.\<close>

definition random_choice :: "'g random_src \<Rightarrow> 'a list \<Rightarrow> ('g, 'a) prog" where
  "random_choice R xs =
     (if xs = [] then lift (Inl IndexError)
      else bnd (randbelow R (length xs)) (\<lambda>k. lift (getitem xs (int k))))"

subsection \<open>The calls on the \<^verbatim>\<open>MIDIFile\<close> object\<close>

definition addTempo :: "nat \<Rightarrow> real \<Rightarrow> real \<Rightarrow> midifile \<Rightarrow> midifile" where
  "addTempo track time tempo m = m\<lparr>tempos := tempos m @ [(track, time, tempo)]\<rparr>"

definition addProgramChange :: "nat \<Rightarrow> nat \<Rightarrow> real \<Rightarrow> nat \<Rightarrow> midifile \<Rightarrow> midifile" where
  "addProgramChange tracknum channel time program m =
     m\<lparr>programs := programs m @ [(tracknum, channel, time, program)]\<rparr>"

definition addNote :: "nat \<Rightarrow> nat \<Rightarrow> int \<Rightarrow> real \<Rightarrow> real \<Rightarrow> int \<Rightarrow> ('g, unit) prog" where
  "addNote track channel pitch time dur volume s =
     Inr ((), s\<lparr>midi := (midi s)\<lparr>m_notes := m_notes (midi s) @
        [\<lparr>n_track = track, n_channel = channel, n_pitch = pitch,
          n_time = time, n_duration = dur, n_volume = volume\<rparr>]\<rparr>\<rparr>)"

section \<open>The generator\<close>

definition duration :: real where
  "duration = 300"

definition modes :: "(string \<times> int list) list" where
  "modes =
     [(''lydian'', [0, 2, 4, 6, 7, 9, 11]),
      (''dorian'', [0, 2, 3, 5, 7, 9, 10]),
      (''mixolydian'', [0, 2, 4, 5, 7, 9, 10]),
      (''aeolian'', [0, 2, 3, 5, 7, 8, 10])]"

text \<open>\<^verbatim>\<open>modes[mode_name]\<close> raises \<^verbatim>\<open>KeyError\<close> on a key the dictionary does not hold.\<close>

definition get_scale :: "int \<Rightarrow> string \<Rightarrow> error + int list" where
  "get_scale root_n mode_name =
     (case map_of modes mode_name of
        None \<Rightarrow> Inl (KeyError mode_name)
      | Some intervals \<Rightarrow> Inr (map (\<lambda>i. root_n + i) intervals))"

definition mode_names :: "string list" where
  "mode_names = map fst modes"

subsection \<open>Layer 1: drone\<close>

definition roots :: "int list" where
  "roots = [48, 53, 50, 55, 48, 45, 50, 48]"

definition drone_body :: "'g random_src \<Rightarrow> real \<Rightarrow> int \<Rightarrow> ('g, real \<times> int) prog" where
  "drone_body R time root_idx =
     bnd (random_uniform R 35 45) (\<lambda>hold.
     bnd (lift (getitem roots (root_idx mod int (length roots)))) (\<lambda>root_n.
     bnd (addNote 0 0 root_n time hold 30) (\<lambda>_.
     bnd (addNote 0 0 (root_n + 7) (time + 2) (hold - 2) 25) (\<lambda>_.
     bnd (random_random R) (\<lambda>u.
     bnd (if u < 0.4 then
            bnd (random_random R) (\<lambda>v.
            let third = (if v < 0.6 then root_n + 4 else root_n + 3) in
            addNote 0 0 third (time + 5) (hold - 8) 20)
          else ret ()) (\<lambda>_.
     ret (time + hold, root_idx + 1)))))))"

partial_function (option) drone_loop ::
  "'g random_src \<Rightarrow> real \<Rightarrow> int \<Rightarrow> 'g world \<Rightarrow> (error + (real \<times> int) \<times> 'g world) option" where
  "drone_loop R time root_idx s =
     (if time < duration then
        (case drone_body R time root_idx s of
           Inl e \<Rightarrow> Some (Inl e)
         | Inr ((time', root_idx'), s') \<Rightarrow> drone_loop R time' root_idx' s')
      else Some (Inr ((time, root_idx), s)))"

subsection \<open>Layer 2: melody\<close>

text \<open>Lines 72-73: the centre the scale of one melody iteration is built on.\<close>

definition tonal_center :: "real \<Rightarrow> int" where
  "tonal_center time =
     (let progress = time / duration
      in 60 + py_int (sin (progress * pi * 4) * 5))"

text \<open>
  The four branches of the \<^verbatim>\<open>if choice < ...\<close> chain. Each returns the new value of
  \<^verbatim>\<open>last_note\<close>; \<^verbatim>\<open>None\<close> is \<^const>\<open>None\<close>. In the two \<^verbatim>\<open>for\<close> loops the
  variable \<^verbatim>\<open>note\<close> is the one the loop assigns.
\<close>

definition single_note ::
  "'g random_src \<Rightarrow> real \<Rightarrow> int list \<Rightarrow> int option \<Rightarrow> ('g, int option) prog" where
  "single_note R time scale last_note =
     bnd (if last_note \<noteq> None \<and> last_note \<noteq> Some 0
          then bnd (random_random R) (\<lambda>q. ret (q < 0.6)) else ret False) (\<lambda>stepwise.
     bnd (if stepwise then
            bnd (random_choice R [-1, 1, -2, 2]) (\<lambda>step.
            bnd (if the last_note \<in> set scale then lift (index scale (the last_note))
                 else ret (int (length scale) div 2)) (\<lambda>idx.
            let idx = max 0 (min (int (length scale) - 1) (idx + step)) in
            lift (getitem scale idx)))
          else random_choice R scale) (\<lambda>note.
     bnd (random_randint R 38 58) (\<lambda>velocity.
     bnd (random_uniform R 2.5 6) (\<lambda>note_dur.
     bnd (addNote 0 1 note time note_dur velocity) (\<lambda>_.
     ret (Some note))))))"

definition interval_pair ::
  "'g random_src \<Rightarrow> real \<Rightarrow> int list \<Rightarrow> ('g, int option) prog" where
  "interval_pair R time scale =
     bnd (random_choice R scale) (\<lambda>note1.
     bnd (random_choice R [2, 4, 5, 7]) (\<lambda>interval.
     let note2 = note1 + interval in
     bnd (random_randint R 35 50) (\<lambda>velocity.
     bnd (addNote 0 1 note1 time 4 velocity) (\<lambda>_.
     bnd (addNote 0 1 note2 (time + 0.3) 3.5 (velocity - 8)) (\<lambda>_.
     ret (Some note1))))))"

definition descending_fragment ::
  "'g random_src \<Rightarrow> real \<Rightarrow> int list \<Rightarrow> ('g, int option) prog" where
  "descending_fragment R time scale =
     bnd (random_choice R (drop 3 scale)) (\<lambda>start_note.
     for_each (py_range 3) (\<lambda>i note.
       bnd (if start_note \<in> set scale then lift (index scale start_note) else ret 4) (\<lambda>idx.
       bnd (lift (getitem scale (max 0 (idx - i)))) (\<lambda>note.
       let vel = 50 - i * 8 in
       bnd (addNote 0 1 note (time + real_of_int i * 1.2) 2 vel) (\<lambda>_.
       ret (Some note))))) None)"

definition ascending_motif ::
  "'g random_src \<Rightarrow> real \<Rightarrow> int list \<Rightarrow> ('g, int option) prog" where
  "ascending_motif R time scale =
     bnd (random_randint R 0 3) (\<lambda>start_idx.
     for_each (py_range 4) (\<lambda>i note.
       bnd (lift (getitem scale (min (start_idx + i) (int (length scale) - 1)))) (\<lambda>note.
       let vel = 35 + i * 5 in
       bnd (addNote 0 1 note (time + real_of_int i * 0.8) 2.5 vel) (\<lambda>_.
       ret (Some note)))) None)"

definition gesture ::
  "'g random_src \<Rightarrow> real \<Rightarrow> real \<Rightarrow> int list \<Rightarrow> int option \<Rightarrow> ('g, int option) prog" where
  "gesture R choice time scale last_note =
     (if choice < 0.5 then single_note R time scale last_note
      else if choice < 0.7 then interval_pair R time scale
      else if choice < 0.85 then descending_fragment R time scale
      else ascending_motif R time scale)"

definition melody_body ::
  "'g random_src \<Rightarrow> real \<Rightarrow> string \<Rightarrow> int option \<Rightarrow> ('g, real \<times> string \<times> int option) prog" where
  "melody_body R time current_mode last_note =
     (let root_n = tonal_center time in
      bnd (random_random R) (\<lambda>u.
      bnd (if u < 0.08 then random_choice R mode_names else ret current_mode) (\<lambda>current_mode.
      bnd (lift (get_scale root_n current_mode)) (\<lambda>scale.
      bnd (random_random R) (\<lambda>choice.
      bnd (gesture R choice time scale last_note) (\<lambda>last_note.
      bnd (random_random R) (\<lambda>p.
      bnd (if p < 0.15 then random_uniform R 12 20 else random_uniform R 3 9) (\<lambda>gap.
      ret (time + gap, current_mode, last_note)))))))))"

partial_function (option) melody_loop ::
  "'g random_src \<Rightarrow> real \<Rightarrow> string \<Rightarrow> int option \<Rightarrow> 'g world \<Rightarrow>
     (error + (real \<times> string \<times> int option) \<times> 'g world) option" where
  "melody_loop R time current_mode last_note s =
     (if time < duration - 10 then
        (case melody_body R time current_mode last_note s of
           Inl e \<Rightarrow> Some (Inl e)
         | Inr ((time', current_mode', last_note'), s') \<Rightarrow>
             melody_loop R time' current_mode' last_note' s')
      else Some (Inr ((time, current_mode, last_note), s)))"

subsection \<open>Layer 3: sparkles\<close>

definition sparkle_body :: "'g random_src \<Rightarrow> real \<Rightarrow> ('g, real) prog" where
  "sparkle_body R time =
     bnd (random_random R) (\<lambda>u.
     bnd (if u < 0.35 then
            bnd (random_choice R [0, 2, 4, 7, 9]) (\<lambda>c.
            let root_n = 72 + c in
            bnd (random_randint R 25 45) (\<lambda>velocity.
            bnd (addNote 0 2 root_n time 1.5 velocity) (\<lambda>_.
            bnd (random_random R) (\<lambda>w.
            if w < 0.3 then
              bnd (random_randint R 2 4) (\<lambda>n.
              for_each (py_range n) (\<lambda>i _.
                bnd (random_choice R [-5, -3, -2, 2, 3, 5]) (\<lambda>d.
                let sparkle = root_n + d in
                addNote 0 2 sparkle (time + 0.4 + real_of_int i * 0.5) 1.2
                  (velocity - 10 - i * 3))) ())
            else ret ()))))
          else ret ()) (\<lambda>_.
     bnd (random_uniform R 8 18) (\<lambda>gap.
     ret (time + gap))))"

partial_function (option) sparkle_loop ::
  "'g random_src \<Rightarrow> real \<Rightarrow> 'g world \<Rightarrow> (error + real \<times> 'g world) option" where
  "sparkle_loop R time s =
     (if time < duration - 5 then
        (case sparkle_body R time s of
           Inl e \<Rightarrow> Some (Inl e)
         | Inr (time', s') \<Rightarrow> sparkle_loop R time' s')
      else Some (Inr (time, s)))"

subsection \<open>Layer 4: string swells\<close>

definition swell_times :: "real list" where
  "swell_times = [45, 95, 150, 210, 270]"

definition enumerate :: "'a list \<Rightarrow> (int \<times> 'a) list" where
  "enumerate xs = zip (map int [0..<length xs]) xs"

definition swell_at :: "'g random_src \<Rightarrow> real \<Rightarrow> ('g, unit) prog" where
  "swell_at R t =
     (if t < duration - 15 then
        bnd (random_choice R [0, 5, 7, -5]) (\<lambda>c.
        let root_n = 48 + c;
            chord = [root_n, root_n + 7, root_n + 12, root_n + 16] in
        bnd (for_each (enumerate chord) (\<lambda>(i, note) _.
               let start_vel = 15 in
               addNote 0 3 note (t + real_of_int i * 0.5) 12 (start_vel + i * 3)) ()) (\<lambda>_.
        bnd (random_random R) (\<lambda>u.
        if u < 0.6 then
          (let rising = root_n + 12 in addNote 0 3 (rising + 2) (t + 6) 5 35)
        else ret ())))
      else ret ())"

definition swell_layer :: "'g random_src \<Rightarrow> ('g, unit) prog" where
  "swell_layer R = for_each swell_times (\<lambda>t _. swell_at R t) ()"

subsection \<open>Layer 5: bass\<close>

definition bass_body :: "'g random_src \<Rightarrow> real \<Rightarrow> ('g, real) prog" where
  "bass_body R time =
     bnd (random_random R) (\<lambda>u.
     bnd (if u < 0.4 then
            bnd (random_choice R [0, 5, 7]) (\<lambda>c.
            let bass = 36 + c in
            addNote 0 0 bass time 8 28)
          else ret ()) (\<lambda>_.
     bnd (random_uniform R 25 45) (\<lambda>gap.
     ret (time + gap))))"

partial_function (option) bass_loop ::
  "'g random_src \<Rightarrow> real \<Rightarrow> 'g world \<Rightarrow> (error + real \<times> 'g world) option" where
  "bass_loop R time s =
     (if time < duration - 20 then
        (case bass_body R time s of
           Inl e \<Rightarrow> Some (Inl e)
         | Inr (time', s') \<Rightarrow> bass_loop R time' s')
      else Some (Inr (time, s)))"

subsection \<open>\<^verbatim>\<open>generate_ambient\<close> and the script\<close>

text \<open>Sequencing of the layers: a loop that does not return, or an exception, ends the run.\<close>

definition then_do :: "(error + 'a) option \<Rightarrow> ('a \<Rightarrow> (error + 'b) option) \<Rightarrow> (error + 'b) option" where
  "then_do m f = (case m of None \<Rightarrow> None | Some (Inl e) \<Rightarrow> Some (Inl e) | Some (Inr x) \<Rightarrow> f x)"

definition new_midi :: midifile where
  "new_midi =
     (let midi = MIDIFile 4;
          tempo = 55;
          midi = addTempo 0 0 tempo midi;
          midi = addProgramChange 0 0 0 89 midi;
          midi = addProgramChange 0 1 0 0 midi;
          midi = addProgramChange 0 2 0 8 midi;
          midi = addProgramChange 0 3 0 48 midi
      in midi)"

text \<open>
  The result is the random state the call leaves behind and the \<^verbatim>\<open>MIDIFile\<close> object
  that \<^verbatim>\<open>midi.writeFile\<close> is given.
\<close>

definition generate_ambient :: "'g random_src \<Rightarrow> 'g \<Rightarrow> (error + 'g world) option" where
  "generate_ambient R g =
     then_do (drone_loop R 0 0 \<lparr>rng = g, midi = new_midi\<rparr>) (\<lambda>(_, s).
     then_do (melody_loop R 8 ''lydian'' None s) (\<lambda>(_, s).
     then_do (sparkle_loop R 20 s) (\<lambda>(_, s).
     then_do (Some (swell_layer R s)) (\<lambda>(_, s).
     then_do (bass_loop R 30 s) (\<lambda>(_, s).
     Some (Inr s))))))"

text \<open>
  The script: \<^verbatim>\<open>random.seed(123)\<close> at module level, then one call of
  \<^verbatim>\<open>generate_ambient\<close>. \<open>g0\<close> is the state the generator has when the process starts.
\<close>

definition script_main :: "'g random_src \<Rightarrow> 'g \<Rightarrow> (error + 'g world) option" where
  "script_main R g0 = generate_ambient R (random_seed R 123 g0)"

section \<open>Specification vocabulary\<close>

text \<open>
  \<open>returns m s Q\<close>: run from the state \<open>s\<close>, the statement \<open>m\<close> raises no exception and its
  result and final state satisfy \<open>Q\<close>. \<open>extends L s s'\<close>: the state \<open>s'\<close> has the
  \<^verbatim>\<open>MIDIFile\<close> object of \<open>s\<close> with further notes appended, each of them of the shape \<open>L\<close>.
\<close>

definition returns :: "('g, 'a) prog \<Rightarrow> 'g world \<Rightarrow> ('a \<Rightarrow> 'g world \<Rightarrow> bool) \<Rightarrow> bool" where
  "returns m s Q = (case m s of Inl e \<Rightarrow> False | Inr (x, s') \<Rightarrow> Q x s')"

definition extends :: "(note_event \<Rightarrow> bool) \<Rightarrow> 'g world \<Rightarrow> 'g world \<Rightarrow> bool" where
  "extends L s s' \<longleftrightarrow>
     (\<exists>ns. midi s' = (midi s)\<lparr>m_notes := m_notes (midi s) @ ns\<rparr> \<and> list_all L ns)"

text \<open>
  The shape of the notes each layer emits: track and channel arguments, the ranges of pitch,
  velocity and duration, and where the note starts and ends. \<open>final_root\<close> is the root note
  of the drone iteration that moves the cursor to 300 or beyond.
\<close>

definition drone_note :: "note_event \<Rightarrow> bool" where
  "drone_note n \<longleftrightarrow> n_track n = 0 \<and> n_channel n = 0 \<and> 45 \<le> n_pitch n \<and> n_pitch n \<le> 62 \<and>
     (n_volume n = 30 \<or> n_volume n = 25 \<or> n_volume n = 20) \<and> 0 \<le> n_time n \<and>
     27 \<le> n_duration n \<and> n_duration n < 45"

definition final_root :: "note_event \<Rightarrow> bool" where
  "final_root n \<longleftrightarrow> n_channel n = 0 \<and> n_volume n = 30 \<and> n_time n < 300 \<and>
     35 \<le> n_duration n \<and> n_duration n < 45 \<and> 300 \<le> n_time n + n_duration n"

definition scale_ok :: "int list \<Rightarrow> bool" where
  "scale_ok sc \<longleftrightarrow> length sc = 7 \<and> list_all (\<lambda>x. 55 \<le> x \<and> x \<le> 76) sc"

definition melody_note :: "note_event \<Rightarrow> bool" where
  "melody_note n \<longleftrightarrow> n_track n = 0 \<and> n_channel n = 1 \<and> 55 \<le> n_pitch n \<and> n_pitch n \<le> 83 \<and>
     27 \<le> n_volume n \<and> n_volume n \<le> 58 \<and> 8 \<le> n_time n \<and> 2 \<le> n_duration n \<and>
     n_time n + n_duration n < 300"

text \<open>The notes a statement appended, and how many.\<close>

definition emitted :: "'g world \<Rightarrow> 'g world \<Rightarrow> note_event list" where
  "emitted s s' = drop (length (m_notes (midi s))) (m_notes (midi s'))"

definition emits :: "'g world \<Rightarrow> 'g world \<Rightarrow> nat \<Rightarrow> bool" where
  "emits s s' k \<longleftrightarrow> m_notes (midi s') = m_notes (midi s) @ emitted s s' \<and> length (emitted s s') = k"

definition sparkle_note :: "note_event \<Rightarrow> bool" where
  "sparkle_note n \<longleftrightarrow> n_track n = 0 \<and> n_channel n = 2 \<and> 67 \<le> n_pitch n \<and> n_pitch n \<le> 86 \<and>
     6 \<le> n_volume n \<and> n_volume n \<le> 45 \<and> 20 \<le> n_time n \<and> 1.2 \<le> n_duration n \<and>
     n_time n + n_duration n < 300"

definition swell_note :: "note_event \<Rightarrow> bool" where
  "swell_note n \<longleftrightarrow> n_track n = 0 \<and> n_channel n = 3 \<and> 43 \<le> n_pitch n \<and> n_pitch n \<le> 71 \<and>
     15 \<le> n_volume n \<and> n_volume n \<le> 35 \<and> 45 \<le> n_time n \<and> 5 \<le> n_duration n \<and>
     n_time n + n_duration n < 300"

definition bass_note :: "note_event \<Rightarrow> bool" where
  "bass_note n \<longleftrightarrow> n_track n = 0 \<and> n_channel n = 0 \<and> 36 \<le> n_pitch n \<and> n_pitch n \<le> 43 \<and>
     n_volume n = 28 \<and> 30 \<le> n_time n \<and> n_duration n = 8 \<and> n_time n + n_duration n < 300"

definition late_note :: "note_event \<Rightarrow> bool" where
  "late_note n \<longleftrightarrow> melody_note n \<or> sparkle_note n \<or> swell_note n \<or> bass_note n"

text \<open>
  Concrete generators for the runs evaluated below, all within the library's ranges:
  one whose \<^verbatim>\<open>random()\<close> is a constant, one whose first draw after seeding differs from all
  later ones, and (further down) one that replays a list of draws.
\<close>

definition const_rng :: "real \<Rightarrow> unit random_src" where
  "const_rng u = \<lparr>seed_f = (\<lambda>a. ()), random_f = (\<lambda>g. (u, g)), randbelow_f = (\<lambda>n g. (0, g))\<rparr>"

definition flip_rng :: "bool random_src" where
  "flip_rng = \<lparr>seed_f = (\<lambda>a. True), random_f = (\<lambda>g. (if g then 1 / 2 else 0, False)),
     randbelow_f = (\<lambda>n g. (0, False))\<rparr>"

text \<open>The first note of a run, the drone root at time 0, whose duration is the first draw.\<close>

definition first_note :: "real \<Rightarrow> note_event" where
  "first_note u = \<lparr>n_track = 0, n_channel = 0, n_pitch = 48, n_time = 0,
     n_duration = 35 + (45 - 35) * u, n_volume = 30\<rparr>"

text \<open>The range invariants of a note event.\<close>

definition note_ok :: "note_event \<Rightarrow> bool" where
  "note_ok n \<longleftrightarrow> 0 \<le> n_pitch n \<and> n_pitch n \<le> 127 \<and> 0 \<le> n_volume n \<and> n_volume n \<le> 127 \<and>
     0 < n_duration n \<and> 0 \<le> n_time n"

text \<open>A note that is over by the time \<open>T\<close>.\<close>

definition ends_by :: "real \<Rightarrow> note_event \<Rightarrow> bool" where
  "ends_by T n \<longleftrightarrow> n_time n + n_duration n \<le> T"

text \<open>
  A generator that replays a script: \<^verbatim>\<open>random()\<close> takes the next number \<open>k\<close> as \<open>k/1000\<close>,
  \<^verbatim>\<open>_randbelow(n)\<close> takes it modulo \<open>n\<close>; an exhausted script gives zeros.
\<close>

definition script_rng :: "nat list random_src" where
  "script_rng =
     \<lparr>seed_f = (\<lambda>a. []),
      random_f = (\<lambda>g. case g of [] \<Rightarrow> (0, []) | k # ks \<Rightarrow> (real (k mod 1000) / 1000, ks)),
      randbelow_f = (\<lambda>n g. case g of [] \<Rightarrow> (0, []) | k # ks \<Rightarrow> (k mod n, ks))\<rparr>"

text \<open>A pitch at most 18 semitones above a centre \<open>c\<close>.\<close>

definition pitch_in :: "int \<Rightarrow> note_event \<Rightarrow> bool" where
  "pitch_in c n \<longleftrightarrow> c \<le> n_pitch n \<and> n_pitch n \<le> c + 18"

section \<open>Properties\<close>

subsection \<open>The scale function\<close>

lemma get_scale_registered:
  "mode_name \<in> set mode_names \<Longrightarrow>
     \<exists>sc. get_scale root_n mode_name = Inr sc \<and> length sc = 7 \<and> sorted_wrt (<) sc \<and> hd sc = root_n"
  by (auto simp: mode_names_def modes_def get_scale_def)

lemma get_scale_unregistered:
  "mode_name \<notin> set mode_names \<Longrightarrow> get_scale root_n mode_name = Inl (KeyError mode_name)"
  by (auto simp: mode_names_def modes_def get_scale_def)

subsection \<open>Rules for statements\<close>

lemma returns_ret [simp]: "returns (ret x) s Q = Q x s"
  by (simp add: returns_def ret_def)

lemma returns_bnd [simp]: "returns (bnd m f) s Q = returns m s (\<lambda>x s'. returns (f x) s' Q)"
  by (simp add: returns_def bnd_def split: sum.splits prod.splits)

lemma returns_lift [simp]: "returns (lift (Inr x)) s Q = Q x s" "returns (lift (Inl e)) s Q = False"
  by (simp_all add: returns_def lift_def)

lemma returns_addNote [simp]:
  "returns (addNote tr ch p t d v) s Q =
     Q () (s\<lparr>midi := (midi s)\<lparr>m_notes := m_notes (midi s) @
        [\<lparr>n_track = tr, n_channel = ch, n_pitch = p, n_time = t, n_duration = d, n_volume = v\<rparr>]\<rparr>\<rparr>)"
  by (simp add: returns_def addNote_def)

lemma returns_mono:
  "returns m s Q \<Longrightarrow> (\<And>x s'. Q x s' \<Longrightarrow> Q' x s') \<Longrightarrow> returns m s Q'"
  by (auto simp: returns_def split: sum.splits)

lemma returnsE:
  assumes "returns m s Q"
  obtains x s' where "m s = Inr (x, s')" "Q x s'"
  using assms by (auto simp: returns_def split: sum.splits)

lemma returns_random:
  assumes "rng_ok R" "\<And>u g'. 0 \<le> u \<Longrightarrow> u < 1 \<Longrightarrow> Q u (s\<lparr>rng := g'\<rparr>)"
  shows "returns (random_random R) s Q"
proof -
  obtain u g' where e: "random_f R (rng s) = (u, g')" by (cases "random_f R (rng s)")
  with assms(1) have "0 \<le> u" "u < 1" by (auto simp: rng_ok_def dest: spec [of _ "rng s"])
  with assms(2) e show ?thesis by (simp add: returns_def random_random_def)
qed

lemma returns_uniform:
  assumes "rng_ok R" "a < b" "\<And>x g'. a \<le> x \<Longrightarrow> x < b \<Longrightarrow> Q x (s\<lparr>rng := g'\<rparr>)"
  shows "returns (random_uniform R a b) s Q"
  unfolding random_uniform_def returns_bnd returns_ret
proof (rule returns_random [OF assms(1)])
  fix u :: real and g' assume u: "0 \<le> u" "u < 1"
  have "a \<le> a + (b - a) * u" using u assms(2) by simp
  moreover have "(b - a) * u < (b - a) * 1" using u assms(2) by (intro mult_strict_left_mono) auto
  ultimately show "Q (a + (b - a) * u) (s\<lparr>rng := g'\<rparr>)" by (intro assms(3)) auto
qed

lemma returns_randbelow:
  assumes "rng_ok R" "0 < n" "\<And>k g'. k < n \<Longrightarrow> Q k (s\<lparr>rng := g'\<rparr>)"
  shows "returns (randbelow R n) s Q"
proof -
  obtain k g' where e: "randbelow_f R n (rng s) = (k, g')" by (cases "randbelow_f R n (rng s)")
  from assms(1,2) have "fst (randbelow_f R n (rng s)) < n" by (simp add: rng_ok_def)
  with e have "k < n" by simp
  with assms(3) e show ?thesis by (simp add: returns_def randbelow_def)
qed

lemma returns_randint:
  assumes "rng_ok R" "a \<le> b" "\<And>k g'. a \<le> k \<Longrightarrow> k \<le> b \<Longrightarrow> Q k (s\<lparr>rng := g'\<rparr>)"
  shows "returns (random_randint R a b) s Q"
  unfolding random_randint_def returns_bnd returns_ret
  using assms by (intro returns_randbelow) auto

lemma returns_choice:
  assumes "rng_ok R" "xs \<noteq> []" "\<And>x g'. x \<in> set xs \<Longrightarrow> Q x (s\<lparr>rng := g'\<rparr>)"
  shows "returns (random_choice R xs) s Q"
  unfolding random_choice_def using assms
  by (auto intro!: returns_randbelow simp: getitem_def)

lemma extends_refl [simp]: "extends L s s"
  by (auto simp: extends_def intro: exI [of _ "[]"])

lemma extends_rng [simp]: "extends L s (s'\<lparr>rng := g\<rparr>) = extends L s s'"
  by (simp add: extends_def)

lemma extends_append [simp]:
  "extends L s (s'\<lparr>midi := (midi s)\<lparr>m_notes := m_notes (midi s) @ ns\<rparr>\<rparr>) = list_all L ns"
  by (auto simp: extends_def dest: arg_cong [where f = m_notes])

lemma extends_trans: "extends L s s' \<Longrightarrow> extends L s' s'' \<Longrightarrow> extends L s s''"
  by (auto simp: extends_def)

lemma extends_mono: "extends L s s' \<Longrightarrow> (\<And>n. L n \<Longrightarrow> L' n) \<Longrightarrow> extends L' s s'"
  by (auto simp: extends_def list_all_iff)

subsection \<open>The drone loop\<close>

lemma roots_item:
  "\<exists>r. getitem roots (i mod int (length roots)) = Inr r \<and> 45 \<le> r \<and> r \<le> 55"
proof -
  have "0 \<le> i mod 8" "i mod 8 < 8" by simp_all
  then have "i mod 8 \<in> {0,1,2,3,4,5,6,7}" by auto
  then show ?thesis by (auto simp: roots_def getitem_def)
qed

lemma drone_body_spec:
  assumes "rng_ok R" "0 \<le> t"
  shows "returns (drone_body R t i) s (\<lambda>(t', i') s'.
           extends drone_note s s' \<and> t + 35 \<le> t' \<and> t' < t + 45 \<and>
           list_ex (\<lambda>n. n_channel n = 0 \<and> n_volume n = 30 \<and> n_time n = t \<and> n_duration n = t' - t)
             (m_notes (midi s')))"
proof -
  obtain r where r: "getitem roots (i mod int (length roots)) = Inr r" "45 \<le> r" "r \<le> 55"
    using roots_item by blast
  show ?thesis
    unfolding drone_body_def using assms r
    by (auto intro!: returns_uniform returns_random simp: drone_note_def Let_def)
qed

lemma extends_list_ex:
  "extends L s s' \<Longrightarrow> list_ex P (m_notes (midi s)) \<Longrightarrow> list_ex P (m_notes (midi s'))"
  by (auto simp: extends_def)

lemma extends_list_all:
  "extends L s s' \<Longrightarrow> list_all P (m_notes (midi s)) \<Longrightarrow> (\<And>n. L n \<Longrightarrow> P n) \<Longrightarrow>
     list_all P (m_notes (midi s'))"
  by (auto simp: extends_def list_all_iff)

lemma drone_loop_spec:
  assumes "rng_ok R"
  shows "0 \<le> t \<Longrightarrow> \<exists>t' i' s'. drone_loop R t i s = Some (Inr ((t', i'), s')) \<and>
           extends drone_note s s' \<and> duration \<le> t' \<and>
           (t < duration \<longrightarrow> list_ex final_root (m_notes (midi s')))"
proof (induction "nat \<lceil>duration - t\<rceil>" arbitrary: t i s rule: less_induct)
  case less
  show ?case
  proof (cases "t < duration")
    case False
    then show ?thesis by (subst drone_loop.simps) simp
  next
    case True
    from drone_body_spec [OF assms less.prems, of i s]
    obtain t2 i2 s2 where b: "drone_body R t i s = Inr ((t2, i2), s2)"
      and e: "extends drone_note s s2" and t2: "t + 35 \<le> t2" "t2 < t + 45"
      and n: "list_ex (\<lambda>n. n_channel n = 0 \<and> n_volume n = 30 \<and> n_time n = t \<and>
                n_duration n = t2 - t) (m_notes (midi s2))"
      by (auto elim!: returnsE)
    have "nat \<lceil>duration - t2\<rceil> < nat \<lceil>duration - t\<rceil>" using True t2 by linarith
    moreover have "0 \<le> t2" using t2 less.prems by simp
    ultimately obtain t' i' s' where l: "drone_loop R t2 i2 s2 = Some (Inr ((t', i'), s'))"
      and e': "extends drone_note s2 s'" and t': "duration \<le> t'"
      and f: "t2 < duration \<longrightarrow> list_ex final_root (m_notes (midi s'))"
      using less.hyps by blast
    have u: "drone_loop R t i s = drone_loop R t2 i2 s2"
      using b True by (subst drone_loop.simps) simp
    have "list_ex final_root (m_notes (midi s'))"
    proof (cases "t2 < duration")
      case True
      then show ?thesis using f by simp
    next
      case False
      have "list_ex final_root (m_notes (midi s2))"
        using n True False t2 unfolding list_ex_iff final_root_def duration_def by fastforce
      then show ?thesis by (rule extends_list_ex [OF e'])
    qed
    with u l e e' t' show ?thesis by (metis extends_trans)
  qed
qed

subsection \<open>Loops over lists, subscripts and the tonal centre\<close>

lemma returns_for_each:
  assumes "I v s" "\<And>x v s. x \<in> set xs \<Longrightarrow> I v s \<Longrightarrow> returns (body x v) s I"
  shows "returns (for_each xs body v) s I"
  using assms
proof (induction xs arbitrary: v s)
  case Nil
  then show ?case by simp
next
  case (Cons x xs)
  have "returns (body x v) s I" using Cons.prems by simp
  then show ?case
    unfolding for_each.simps returns_bnd
    by (rule returns_mono) (rule Cons.IH, simp_all add: Cons.prems(2))
qed

lemma returns_getitem:
  assumes "0 \<le> j" "j < int (length xs)" "\<And>x. x \<in> set xs \<Longrightarrow> Q x s"
  shows "returns (lift (getitem xs j)) s Q"
  using assms by (simp add: getitem_def)

lemma index_mem:
  "x \<in> set xs \<Longrightarrow> \<exists>k. index xs x = Inr k \<and> 0 \<le> k \<and> k < int (length xs)"
  by (induction xs) auto

lemma returns_index:
  assumes "x \<in> set xs" "\<And>k. 0 \<le> k \<Longrightarrow> k < int (length xs) \<Longrightarrow> Q k s"
  shows "returns (lift (index xs x)) s Q"
  using index_mem [OF assms(1)] assms(2) by auto

lemma py_int_bounds: "- 5 \<le> y \<Longrightarrow> y \<le> 5 \<Longrightarrow> - 5 \<le> py_int y \<and> py_int y \<le> 5"
  unfolding py_int_def by (auto; linarith)

lemma py_int_sin5: "- 5 \<le> py_int (sin x * 5)" "py_int (sin x * 5) \<le> 5"
proof -
  have "- 5 \<le> sin x * 5" "sin x * 5 \<le> 5" by simp_all
  then show "- 5 \<le> py_int (sin x * 5)" "py_int (sin x * 5) \<le> 5"
    using py_int_bounds by blast+
qed

lemma tonal_center_bounds: "55 \<le> tonal_center t" "tonal_center t \<le> 65"
  using py_int_sin5 [of "t / duration * pi * 4"] by (simp_all add: tonal_center_def Let_def)

lemma get_scale_ok:
  assumes "m \<in> set mode_names" "55 \<le> c" "c \<le> 65"
  shows "\<exists>sc. get_scale c m = Inr sc \<and> scale_ok sc"
  using assms by (auto simp: mode_names_def modes_def get_scale_def scale_ok_def)

subsection \<open>The melody loop\<close>

text \<open>Each gesture returns, and the notes it emits are melody notes.\<close>

lemma single_note_spec:
  assumes "rng_ok R" "scale_ok sc" "8 \<le> t" "t < 290"
  shows "returns (single_note R t sc prev) s (\<lambda>_ s'. extends melody_note s s')"
proof -
  have len: "length sc = 7" "sc \<noteq> []" using assms(2) by (auto simp: scale_ok_def)
  have rg: "\<forall>x\<in>set sc. 55 \<le> x \<and> x \<le> 83" using assms(2) by (fastforce simp: scale_ok_def list_all_iff)
  show ?thesis
    unfolding single_note_def using assms(1,3,4) len rg
    by (auto intro!: returns_random returns_choice returns_randint returns_uniform
          returns_index returns_getitem simp: melody_note_def Let_def)
qed

lemma returns_choice_P:
  assumes "rng_ok R" "xs \<noteq> []" "\<forall>x\<in>set xs. P x"
    "\<And>x g'. P x \<Longrightarrow> Q x (s\<lparr>rng := g'\<rparr>)"
  shows "returns (random_choice R xs) s Q"
  using assms by (intro returns_choice) auto

lemma returns_getitem_P:
  assumes "0 \<le> j" "j < int (length xs)" "\<forall>x\<in>set xs. P x" "\<And>x. P x \<Longrightarrow> Q x s"
  shows "returns (lift (getitem xs j)) s Q"
  using assms by (intro returns_getitem) auto

lemmas scale_choice = returns_choice_P [where P = "\<lambda>x. 55 \<le> x \<and> x \<le> 76"]

lemmas scale_getitem = returns_getitem_P [where P = "\<lambda>x. 55 \<le> x \<and> x \<le> 76"]

lemma scale_okD2:
  assumes "scale_ok sc"
  shows "length sc = 7" "sc \<noteq> []" "drop 3 sc \<noteq> []"
    "\<forall>x\<in>set sc. 55 \<le> x \<and> x \<le> 76" "\<forall>x\<in>set (drop 3 sc). 55 \<le> x \<and> x \<le> 76"
  using assms by (auto simp: scale_ok_def list_all_iff dest: in_set_dropD)

lemma interval_pair_spec:
  assumes "rng_ok R" "scale_ok sc" "8 \<le> t" "t < 290"
  shows "returns (interval_pair R t sc) s (\<lambda>_ s'. extends melody_note s s')"
proof -
  note sk = scale_okD2 [OF assms(2)]
  show ?thesis
    unfolding interval_pair_def using assms(1,3,4) sk(1-3)
    by (auto intro!: scale_choice [where xs = sc, OF _ _ sk(4)]
          returns_choice [where xs = "[2, 4, 5, 7]"]
          returns_randint simp: melody_note_def Let_def)
qed

lemma py_range_3 [simp]: "py_range 3 = [0, 1, 2]"
  by (simp add: py_range_def upt_rec)

lemma py_range_4 [simp]: "py_range 4 = [0, 1, 2, 3]"
  by (simp add: py_range_def upt_rec)

lemma descending_fragment_spec:
  assumes "rng_ok R" "scale_ok sc" "8 \<le> t" "t < 290"
  shows "returns (descending_fragment R t sc) s (\<lambda>_ s'. extends melody_note s s')"
proof -
  note sk = scale_okD2 [OF assms(2)]
  show ?thesis
    unfolding descending_fragment_def using assms(1,3,4) sk(1-3)
    by (auto intro!: scale_choice [where xs = "drop 3 sc", OF _ _ sk(5)] returns_index
          scale_getitem [where xs = sc, OF _ _ sk(4)] simp: melody_note_def Let_def)
qed

lemma ascending_motif_spec:
  assumes "rng_ok R" "scale_ok sc" "8 \<le> t" "t < 290"
  shows "returns (ascending_motif R t sc) s (\<lambda>_ s'. extends melody_note s s')"
proof -
  note sk = scale_okD2 [OF assms(2)]
  show ?thesis
    unfolding ascending_motif_def using assms(1,3,4) sk(1-3)
    by (auto intro!: returns_randint scale_getitem [where xs = sc, OF _ _ sk(4)]
          simp: melody_note_def Let_def)
qed

lemma gesture_spec:
  assumes "rng_ok R" "scale_ok sc" "8 \<le> t" "t < 290"
  shows "returns (gesture R ch t sc prev) s (\<lambda>_ s'. extends melody_note s s')"
  unfolding gesture_def
  using single_note_spec [OF assms] interval_pair_spec [OF assms]
    descending_fragment_spec [OF assms] ascending_motif_spec [OF assms]
  by simp

text \<open>How many notes each gesture emits, and which of them \<^verbatim>\<open>last_note\<close> becomes.\<close>

lemma emitted_rng [simp]: "emitted s (s'\<lparr>rng := g\<rparr>) = emitted s s'"
  by (simp add: emitted_def)

lemma emitted_append [simp]:
  "emitted s (s'\<lparr>midi := (midi s)\<lparr>m_notes := m_notes (midi s) @ ns\<rparr>\<rparr>) = ns"
  by (simp add: emitted_def)

lemma emits_rng [simp]: "emits s (s'\<lparr>rng := g\<rparr>) k = emits s s' k"
  by (simp add: emits_def)

lemma emits_append [simp]:
  "emits s (s'\<lparr>midi := (midi s)\<lparr>m_notes := m_notes (midi s) @ ns\<rparr>\<rparr>) k \<longleftrightarrow> length ns = k"
  by (simp add: emits_def)

lemma single_note_last:
  assumes "rng_ok R" "length sc = 7"
  shows "returns (single_note R t sc prev) s (\<lambda>r s'.
           emits s s' 1 \<and> r = Some (n_pitch (last (emitted s s'))))"
proof -
  have "sc \<noteq> []" using assms(2) by auto
  then show ?thesis
    unfolding single_note_def using assms
    by (auto intro!: returns_random returns_choice returns_randint returns_uniform
          returns_index returns_getitem simp: Let_def)
qed

lemma interval_pair_last:
  assumes "rng_ok R" "length sc = 7"
  shows "returns (interval_pair R t sc) s (\<lambda>r s'.
           emits s s' 2 \<and> r = Some (n_pitch (hd (emitted s s'))))"
proof -
  have "sc \<noteq> []" using assms(2) by auto
  then show ?thesis
    unfolding interval_pair_def using assms
    by (auto intro!: returns_choice returns_randint simp: Let_def)
qed

lemma descending_fragment_last:
  assumes "rng_ok R" "length sc = 7"
  shows "returns (descending_fragment R t sc) s (\<lambda>r s'.
           emits s s' 3 \<and> r = Some (n_pitch (last (emitted s s'))))"
proof -
  have "drop 3 sc \<noteq> []" using assms(2) by auto
  then show ?thesis
    unfolding descending_fragment_def using assms
    by (auto intro!: returns_choice returns_index returns_getitem simp: Let_def)
qed

lemma ascending_motif_last:
  assumes "rng_ok R" "length sc = 7"
  shows "returns (ascending_motif R t sc) s (\<lambda>r s'.
           emits s s' 4 \<and> r = Some (n_pitch (last (emitted s s'))))"
  unfolding ascending_motif_def using assms
  by (auto intro!: returns_randint returns_getitem simp: Let_def)

lemma returns_conj:
  "returns m s Q1 \<Longrightarrow> returns m s Q2 \<Longrightarrow> returns m s (\<lambda>x s'. Q1 x s' \<and> Q2 x s')"
  by (auto simp: returns_def split: sum.splits)

lemma gesture_last:
  assumes "rng_ok R" "length sc = 7"
  shows "returns (gesture R ch t sc prev) s (\<lambda>r s'.
           if ch < 0.5 then emits s s' 1 \<and> r = Some (n_pitch (last (emitted s s')))
           else if ch < 0.7 then emits s s' 2 \<and> r = Some (n_pitch (hd (emitted s s')))
           else if ch < 0.85 then emits s s' 3 \<and> r = Some (n_pitch (last (emitted s s')))
           else emits s s' 4 \<and> r = Some (n_pitch (last (emitted s s'))))"
  unfolding gesture_def
  using single_note_last [OF assms] interval_pair_last [OF assms]
    descending_fragment_last [OF assms] ascending_motif_last [OF assms]
  by simp

lemma extends_emits:
  assumes "extends L s s'" "emits s s' k" "0 < k"
  shows "list_ex L (m_notes (midi s'))"
proof -
  obtain ns where ns: "m_notes (midi s') = m_notes (midi s) @ ns" "list_all L ns"
    using assms(1) by (auto simp: extends_def)
  then have "emitted s s' = ns" by (simp add: emitted_def)
  then have "ns \<noteq> []" using assms(2,3) by (auto simp: emits_def)
  then obtain n where "n \<in> set ns" by (cases ns) auto
  then show ?thesis using ns by (auto simp: list_all_iff list_ex_iff)
qed

lemma gesture_spec2:
  assumes "rng_ok R" "scale_ok sc" "8 \<le> t" "t < 290"
  shows "returns (gesture R ch t sc prev) s (\<lambda>_ s'.
           extends melody_note s s' \<and> list_ex melody_note (m_notes (midi s')))"
proof -
  have len: "length sc = 7" using assms(2) by (simp add: scale_ok_def)
  show ?thesis
    by (rule returns_mono [OF returns_conj [OF gesture_spec [OF assms] gesture_last [OF assms(1) len]]])
       (auto intro: extends_emits split: if_splits)
qed

lemma extends_rng_left [simp]: "extends L (s\<lparr>rng := g\<rparr>) s' = extends L s s'"
  by (simp add: extends_def)

lemma returns_get_scale:
  assumes "m \<in> set mode_names" "\<And>sc. scale_ok sc \<Longrightarrow> Q sc s"
  shows "returns (lift (get_scale (tonal_center t) m)) s Q"
  using get_scale_ok [OF assms(1) tonal_center_bounds, of t] assms(2) by auto

lemma gesture_step:
  assumes "rng_ok R" "scale_ok sc" "8 \<le> t" "t < 290"
    "\<And>x s'. extends melody_note s s' \<Longrightarrow> list_ex melody_note (m_notes (midi s')) \<Longrightarrow> Q x s'"
  shows "returns (gesture R ch t sc prev) s Q"
  by (rule returns_mono [OF gesture_spec2 [OF assms(1-4)]]) (simp add: assms(5))

lemma mode_names_nonempty: "mode_names \<noteq> []"
  by (simp add: mode_names_def modes_def)

lemma melody_body_spec:
  assumes "rng_ok R" "m \<in> set mode_names" "8 \<le> t" "t < 290"
  shows "returns (melody_body R t m prev) s (\<lambda>(t', m', prev') s'.
           extends melody_note s s' \<and> list_ex melody_note (m_notes (midi s')) \<and>
           t + 3 \<le> t' \<and> (t' < t + 9 \<or> t + 12 \<le> t' \<and> t' < t + 20) \<and>
           m' \<in> set mode_names)"
  unfolding melody_body_def Let_def using assms mode_names_nonempty
  by (auto intro!: returns_random returns_choice [where xs = mode_names] returns_get_scale
        gesture_step returns_uniform)

lemma melody_loop_spec:
  assumes "rng_ok R"
  shows "m \<in> set mode_names \<Longrightarrow> 8 \<le> t \<Longrightarrow>
         \<exists>t' m' p' s'. melody_loop R t m prev s = Some (Inr ((t', m', p'), s')) \<and>
           extends melody_note s s' \<and> duration - 10 \<le> t' \<and>
           (t < duration - 10 \<longrightarrow> list_ex melody_note (m_notes (midi s')))"
proof (induction "nat \<lceil>duration - t\<rceil>" arbitrary: t m prev s rule: less_induct)
  case less
  show ?case
  proof (cases "t < duration - 10")
    case False
    then show ?thesis by (subst melody_loop.simps) simp
  next
    case True
    then have "t < 290" by (simp add: duration_def)
    from melody_body_spec [OF assms less.prems this, of prev s]
    obtain t2 m2 p2 s2 where b: "melody_body R t m prev s = Inr ((t2, m2, p2), s2)"
      and e: "extends melody_note s s2" and t2: "t + 3 \<le> t2" and m2: "m2 \<in> set mode_names"
      and x: "list_ex melody_note (m_notes (midi s2))"
      by (auto elim!: returnsE)
    have "nat \<lceil>duration - t2\<rceil> < nat \<lceil>duration - t\<rceil>" using True t2 by linarith
    moreover have "8 \<le> t2" using t2 less.prems by simp
    ultimately obtain t' m' p' s' where "melody_loop R t2 m2 p2 s2 = Some (Inr ((t', m', p'), s'))"
      "extends melody_note s2 s'" "duration - 10 \<le> t'" using less.hyps m2 by blast
    moreover have "melody_loop R t m prev s = melody_loop R t2 m2 p2 s2"
      using b True by (subst melody_loop.simps) simp
    ultimately show ?thesis using e x by (metis extends_trans extends_list_ex)
  qed
qed

subsection \<open>The sparkle, swell and bass layers\<close>

lemma py_range_2 [simp]: "py_range 2 = [0, 1]"
  by (simp add: py_range_def upt_rec)

lemma returns_randint_2_4:
  assumes "rng_ok R" "\<And>g'. Q 2 (s\<lparr>rng := g'\<rparr>)" "\<And>g'. Q 3 (s\<lparr>rng := g'\<rparr>)"
    "\<And>g'. Q 4 (s\<lparr>rng := g'\<rparr>)"
  shows "returns (random_randint R 2 4) s Q"
proof (rule returns_randint [OF assms(1)])
  fix k :: int and g' assume "2 \<le> k" "k \<le> 4"
  then have "k = 2 \<or> k = 3 \<or> k = 4" by auto
  then show "Q k (s\<lparr>rng := g'\<rparr>)" using assms(2-4) by auto
qed simp

lemma sparkle_body_spec:
  assumes "rng_ok R" "20 \<le> t" "t < 295"
  shows "returns (sparkle_body R t) s (\<lambda>t' s'.
           extends sparkle_note s s' \<and> t + 8 \<le> t' \<and> t' < t + 18)"
  unfolding sparkle_body_def Let_def using assms
  by (auto intro!: returns_random returns_uniform returns_randint_2_4
        returns_randint [where a = 25]
        returns_choice_P [where xs = "[0, 2, 4, 7, 9]" and P = "\<lambda>c. 0 \<le> c \<and> c \<le> 9"]
        returns_choice_P [where xs = "[-5, -3, -2, 2, 3, 5]" and P = "\<lambda>c. -5 \<le> c \<and> c \<le> 5"]
        simp: sparkle_note_def)

lemma sparkle_loop_spec:
  assumes "rng_ok R"
  shows "20 \<le> t \<Longrightarrow> \<exists>t' s'. sparkle_loop R t s = Some (Inr (t', s')) \<and>
           extends sparkle_note s s' \<and> duration - 5 \<le> t'"
proof (induction "nat \<lceil>duration - t\<rceil>" arbitrary: t s rule: less_induct)
  case less
  show ?case
  proof (cases "t < duration - 5")
    case False
    then show ?thesis by (subst sparkle_loop.simps) simp
  next
    case True
    then have "t < 295" by (simp add: duration_def)
    from sparkle_body_spec [OF assms less.prems this, of s]
    obtain t2 s2 where b: "sparkle_body R t s = Inr (t2, s2)"
      and e: "extends sparkle_note s s2" and t2: "t + 8 \<le> t2"
      by (auto elim!: returnsE)
    have "nat \<lceil>duration - t2\<rceil> < nat \<lceil>duration - t\<rceil>" using True t2 by linarith
    moreover have "20 \<le> t2" using t2 less.prems by simp
    ultimately obtain t' s' where "sparkle_loop R t2 s2 = Some (Inr (t', s'))"
      "extends sparkle_note s2 s'" "duration - 5 \<le> t'" using less.hyps by blast
    moreover have "sparkle_loop R t s = sparkle_loop R t2 s2"
      using b True by (subst sparkle_loop.simps) simp
    ultimately show ?thesis using e by (metis extends_trans)
  qed
qed

lemma enumerate_4 [simp]: "enumerate [a, b, c, d] = [(0, a), (1, b), (2, c), (3, d)]"
  by (simp add: enumerate_def upt_rec)

lemma swell_at_spec:
  assumes "rng_ok R" "45 \<le> t" "t \<le> 270"
  shows "returns (swell_at R t) s (\<lambda>_ s'. extends swell_note s s')"
  unfolding swell_at_def Let_def using assms
  by (auto intro!: returns_random
        returns_choice_P [where xs = "[0, 5, 7, -5]" and P = "\<lambda>c. -5 \<le> c \<and> c \<le> 7"]
        simp: swell_note_def duration_def)

lemma swell_layer_spec:
  assumes "rng_ok R"
  shows "returns (swell_layer R) s (\<lambda>_ s'. extends swell_note s s')"
  unfolding swell_layer_def
proof (rule returns_for_each)
  show "extends swell_note s s" by simp
next
  fix t :: real and v :: unit and s1 :: "'a world"
  assume "t \<in> set swell_times" and e: "extends swell_note s s1"
  then have "45 \<le> t" "t \<le> 270" by (auto simp: swell_times_def)
  from swell_at_spec [OF assms this, of s1] show "returns (swell_at R t) s1 (\<lambda>_. extends swell_note s)"
    by (rule returns_mono) (rule extends_trans [OF e])
qed

lemma bass_body_spec:
  assumes "rng_ok R" "30 \<le> t" "t < 280"
  shows "returns (bass_body R t) s (\<lambda>t' s'.
           extends bass_note s s' \<and> t + 25 \<le> t' \<and> t' < t + 45)"
  unfolding bass_body_def Let_def using assms
  by (auto intro!: returns_random returns_uniform
        returns_choice_P [where xs = "[0, 5, 7]" and P = "\<lambda>c. 0 \<le> c \<and> c \<le> 7"]
        simp: bass_note_def)

lemma bass_loop_spec:
  assumes "rng_ok R"
  shows "30 \<le> t \<Longrightarrow> \<exists>t' s'. bass_loop R t s = Some (Inr (t', s')) \<and>
           extends bass_note s s' \<and> duration - 20 \<le> t'"
proof (induction "nat \<lceil>duration - t\<rceil>" arbitrary: t s rule: less_induct)
  case less
  show ?case
  proof (cases "t < duration - 20")
    case False
    then show ?thesis by (subst bass_loop.simps) simp
  next
    case True
    then have "t < 280" by (simp add: duration_def)
    from bass_body_spec [OF assms less.prems this, of s]
    obtain t2 s2 where b: "bass_body R t s = Inr (t2, s2)"
      and e: "extends bass_note s s2" and t2: "t + 25 \<le> t2"
      by (auto elim!: returnsE)
    have "nat \<lceil>duration - t2\<rceil> < nat \<lceil>duration - t\<rceil>" using True t2 by linarith
    moreover have "30 \<le> t2" using t2 less.prems by simp
    ultimately obtain t' s' where "bass_loop R t2 s2 = Some (Inr (t', s'))"
      "extends bass_note s2 s'" "duration - 20 \<le> t'" using less.hyps by blast
    moreover have "bass_loop R t s = bass_loop R t2 s2"
      using b True by (subst bass_loop.simps) simp
    ultimately show ?thesis using e by (metis extends_trans)
  qed
qed

subsection \<open>Whole runs\<close>

lemma rng_ok_const: "0 \<le> u \<Longrightarrow> u < 1 \<Longrightarrow> rng_ok (const_rng u)"
  by (simp add: rng_ok_def const_rng_def)

lemma rng_ok_flip: "rng_ok flip_rng"
  by (simp add: rng_ok_def flip_rng_def)

lemma bass_body_rng:
  "bass_body R t s = Inr (t', s') \<Longrightarrow> \<exists>h. rng s' = snd (random_f R h)"
  by (auto simp: bass_body_def bnd_def ret_def lift_def addNote_def random_uniform_def
        random_random_def random_choice_def randbelow_def
        split: sum.splits prod.splits if_splits intro: exI [of _ "rng s"])
    (metis snd_conv)+

lemma bass_loop_rng:
  assumes "rng_ok R"
  shows "30 \<le> t \<Longrightarrow> t < duration - 20 \<or> (\<exists>h. rng s = snd (random_f R h)) \<Longrightarrow>
         bass_loop R t s = Some (Inr (t', s')) \<Longrightarrow> \<exists>h. rng s' = snd (random_f R h)"
proof (induction "nat \<lceil>duration - t\<rceil>" arbitrary: t s rule: less_induct)
  case less
  show ?case
  proof (cases "t < duration - 20")
    case False
    then show ?thesis using less.prems by (subst (asm) bass_loop.simps) auto
  next
    case True
    then have "t < 280" by (simp add: duration_def)
    from bass_body_spec [OF assms less.prems(1) this, of s]
    obtain t2 s2 where b: "bass_body R t s = Inr (t2, s2)" and t2: "t + 25 \<le> t2"
      by (auto elim!: returnsE)
    have m: "nat \<lceil>duration - t2\<rceil> < nat \<lceil>duration - t\<rceil>" using True t2 by linarith
    have "bass_loop R t s = bass_loop R t2 s2"
      using b True by (subst bass_loop.simps) simp
    then have "bass_loop R t2 s2 = Some (Inr (t', s'))" using less.prems(3) by simp
    moreover have "30 \<le> t2" using t2 less.prems by simp
    ultimately show ?thesis using less.hyps [OF m] bass_body_rng [OF b] by blast
  qed
qed

lemma roots_0: "getitem roots (0 mod int (length roots)) = Inr 48"
  by (simp add: getitem_def roots_def)

lemma drone_body_first:
  "drone_body R 0 0 s = Inr (r, s') \<Longrightarrow>
     \<exists>ns. m_notes (midi s') = m_notes (midi s) @ first_note (fst (random_f R (rng s))) # ns"
  unfolding drone_body_def roots_0
  by (auto simp: bnd_def ret_def lift_def addNote_def random_uniform_def
        random_random_def first_note_def Let_def
        split: sum.splits prod.splits if_splits)

lemma extends_first:
  "extends L s s' \<Longrightarrow> m_notes (midi s) = n # ns \<Longrightarrow> \<exists>ns'. m_notes (midi s') = n # ns'"
  by (auto simp: extends_def)

lemma extends_fields:
  "extends L s s' \<Longrightarrow> tempos (midi s') = tempos (midi s) \<and> programs (midi s') = programs (midi s)
     \<and> numTracks (midi s') = numTracks (midi s)"
  by (auto simp: extends_def)

lemma new_midi_simps:
  "m_notes new_midi = []" "numTracks new_midi = 4" "tempos new_midi = [(0, 0, 55)]"
  "programs new_midi = [(0, 0, 0, 89), (0, 1, 0, 0), (0, 2, 0, 8), (0, 3, 0, 48)]"
  by (simp_all add: new_midi_def MIDIFile_def addTempo_def addProgramChange_def)

lemma generate_run:
  assumes "rng_ok R"
  shows "\<exists>t1 i1 s1 w. drone_loop R 0 0 \<lparr>rng = g, midi = new_midi\<rparr> = Some (Inr ((t1, i1), s1)) \<and>
           generate_ambient R g = Some (Inr w) \<and>
           extends drone_note \<lparr>rng = g, midi = new_midi\<rparr> s1 \<and> extends late_note s1 w \<and>
           list_ex final_root (m_notes (midi s1)) \<and>
           list_ex melody_note (m_notes (midi w)) \<and>
           (\<exists>ns. m_notes (midi s1) = first_note (fst (random_f R g)) # ns) \<and>
           (\<exists>h. rng w = snd (random_f R h))"
proof -
  let ?s0 = "\<lparr>rng = g, midi = new_midi\<rparr>"
  obtain t1 i1 s1 where d: "drone_loop R 0 0 ?s0 = Some (Inr ((t1, i1), s1))"
    and e1: "extends drone_note ?s0 s1" and f: "list_ex final_root (m_notes (midi s1))"
    using drone_loop_spec [OF assms, of 0 0 ?s0] by (auto simp: duration_def)
  obtain t2 m2 p2 s2 where m: "melody_loop R 8 ''lydian'' None s1 = Some (Inr ((t2, m2, p2), s2))"
    and e2: "extends melody_note s1 s2" and x2: "list_ex melody_note (m_notes (midi s2))"
    using melody_loop_spec [OF assms, of "''lydian''" 8 None s1]
    by (auto simp: mode_names_def modes_def duration_def)
  obtain t3 s3 where sp: "sparkle_loop R 20 s2 = Some (Inr (t3, s3))"
    and e3: "extends sparkle_note s2 s3"
    using sparkle_loop_spec [OF assms, of 20 s2] by auto
  obtain u4 s4 where sw: "swell_layer R s3 = Inr (u4, s4)" and e4: "extends swell_note s3 s4"
    using swell_layer_spec [OF assms, of s3] by (auto elim!: returnsE)
  obtain t5 s5 where b: "bass_loop R 30 s4 = Some (Inr (t5, s5))"
    and e5: "extends bass_note s4 s5"
    using bass_loop_spec [OF assms, of 30 s4] by auto
  have g: "generate_ambient R g = Some (Inr s5)"
    using d m sp sw b by (simp add: generate_ambient_def then_do_def)
  have l: "extends late_note s1 s5"
  proof -
    have "extends late_note s1 s2" using e2 by (rule extends_mono) (simp add: late_note_def)
    moreover have "extends late_note s2 s3" using e3 by (rule extends_mono) (simp add: late_note_def)
    moreover have "extends late_note s3 s4" using e4 by (rule extends_mono) (simp add: late_note_def)
    moreover have "extends late_note s4 s5" using e5 by (rule extends_mono) (simp add: late_note_def)
    ultimately show ?thesis by (blast intro: extends_trans)
  qed
  have x5: "list_ex melody_note (m_notes (midi s5))"
    using x2 e3 e4 e5 by (blast intro: extends_list_ex)
  have r: "\<exists>h. rng s5 = snd (random_f R h)"
    using bass_loop_rng [OF assms _ _ b] by (simp add: duration_def)
  obtain ta ia sa where b1: "drone_body R 0 0 ?s0 = Inr ((ta, ia), sa)" and ta: "0 \<le> ta"
    using drone_body_spec [OF assms, of 0 0 ?s0] by (auto elim!: returnsE)
  have u: "drone_loop R 0 0 ?s0 = drone_loop R ta ia sa"
    by (subst drone_loop.simps) (simp add: b1 duration_def)
  obtain tb ib sb where "drone_loop R ta ia sa = Some (Inr ((tb, ib), sb))"
    and eb: "extends drone_note sa sb"
    using drone_loop_spec [OF assms ta, of ia sa] by blast
  with u d have "sb = s1" by simp
  moreover obtain ns where "m_notes (midi sa) = first_note (fst (random_f R g)) # ns"
    using drone_body_first [OF b1] by (auto simp: new_midi_simps)
  ultimately have "\<exists>ns. m_notes (midi s1) = first_note (fst (random_f R g)) # ns"
    using eb by (blast dest: extends_first)
  with d g e1 l f x5 r show ?thesis by blast
qed

lemma mode_names_eq: "mode_names = [''lydian'', ''dorian'', ''mixolydian'', ''aeolian'']"
  by (simp add: mode_names_def modes_def)

lemma dorian_60: "get_scale 60 ''dorian'' = Inr [60, 62, 63, 65, 67, 69, 70]"
  by (simp add: modes_def get_scale_def)

lemma lydian_48: "get_scale 48 ''lydian'' = Inr [48, 50, 52, 54, 55, 57, 59]"
  by (simp add: modes_def get_scale_def)

lemma generate_notes:
  assumes "rng_ok R"
  shows "\<exists>w. generate_ambient R g = Some (Inr w) \<and>
           numTracks (midi w) = 4 \<and> tempos (midi w) = [(0, 0, 55)] \<and>
           programs (midi w) = [(0, 0, 0, 89), (0, 1, 0, 0), (0, 2, 0, 8), (0, 3, 0, 48)] \<and>
           list_all (\<lambda>n. drone_note n \<or> late_note n) (m_notes (midi w)) \<and>
           list_ex final_root (m_notes (midi w)) \<and>
           list_ex melody_note (m_notes (midi w)) \<and>
           (\<exists>ns. m_notes (midi w) = first_note (fst (random_f R g)) # ns) \<and>
           (\<exists>h. rng w = snd (random_f R h))"
proof -
  let ?s0 = "\<lparr>rng = g, midi = new_midi\<rparr>"
  obtain s1 w where g: "generate_ambient R g = Some (Inr w)"
    and e1: "extends drone_note ?s0 s1" and e2: "extends late_note s1 w"
    and f: "list_ex final_root (m_notes (midi s1))"
    and x: "list_ex melody_note (m_notes (midi w))"
    and n: "\<exists>ns. m_notes (midi s1) = first_note (fst (random_f R g)) # ns"
    and r: "\<exists>h. rng w = snd (random_f R h)"
    using generate_run [OF assms, of g] by blast
  have "list_all (\<lambda>n. drone_note n \<or> late_note n) (m_notes (midi s1))"
    by (rule extends_list_all [OF e1]) (simp_all add: new_midi_simps)
  then have a: "list_all (\<lambda>n. drone_note n \<or> late_note n) (m_notes (midi w))"
    by (rule extends_list_all [OF e2]) simp
  have "tempos (midi w) = tempos (midi ?s0) \<and> programs (midi w) = programs (midi ?s0) \<and>
      numTracks (midi w) = numTracks (midi ?s0)"
    using extends_fields [OF e1] extends_fields [OF e2] by simp
  then have b: "numTracks (midi w) = 4" "tempos (midi w) = [(0, 0, 55)]"
     "programs (midi w) = [(0, 0, 0, 89), (0, 1, 0, 0), (0, 2, 0, 8), (0, 3, 0, 48)]"
    by (simp_all add: new_midi_simps)
  have c: "list_ex final_root (m_notes (midi w))" by (rule extends_list_ex [OF e2 f])
  have d: "\<exists>ns. m_notes (midi w) = first_note (fst (random_f R g)) # ns"
    using n e2 by (blast dest: extends_first)
  from g a b c d x r show ?thesis by blast
qed

lemma layer_note_ok:
  "drone_note n \<or> late_note n \<Longrightarrow> note_ok n \<and> n_track n = 0 \<and>
     (n_channel n = 0 \<and> n_volume n = 20 \<longrightarrow> 27 \<le> n_duration n) \<and>
     (n_channel n = 2 \<longrightarrow> 6 \<le> n_volume n)"
  by (auto simp: drone_note_def late_note_def melody_note_def sparkle_note_def swell_note_def
        bass_note_def note_ok_def)

lemma rng_ok_zero: "rng_ok (const_rng 0)"
  by (simp add: rng_ok_const)

lemma first_note_inj: "first_note u = first_note v \<Longrightarrow> u = v"
  by (simp add: first_note_def)

subsection \<open>The run in which every draw is 0.25\<close>

lemma world_unit_rng [simp]: "(s :: unit world)\<lparr>rng := g\<rparr> = s"
  by (cases s) simp

lemma random_const [simp]: "returns (random_random (const_rng u)) s Q = Q u s"
  by (simp add: returns_def random_random_def const_rng_def)

lemma uniform_const [simp]: "returns (random_uniform (const_rng u) a b) s Q = Q (a + (b - a) * u) s"
  by (simp add: random_uniform_def)

lemma drone_quarter_body:
  "returns (drone_body (const_rng (1 / 4)) t i) s (\<lambda>(t', i') s'.
     t' = t + 75 / 2 \<and> extends (ends_by (t + 75 / 2)) s s')"
proof -
  obtain r where r: "getitem roots (i mod int (length roots)) = Inr r"
    using roots_item by blast
  show ?thesis
    unfolding drone_body_def using r by (simp add: ends_by_def)
qed

lemma drone_quarter_loop:
  "k \<le> 8 \<Longrightarrow> list_all (ends_by 300) (m_notes (midi s)) \<Longrightarrow>
     \<exists>t' i' s'. drone_loop (const_rng (1 / 4)) (75 / 2 * real k) i s = Some (Inr ((t', i'), s')) \<and>
       list_all (ends_by 300) (m_notes (midi s'))"
proof (induction "8 - k" arbitrary: k i s)
  case 0
  then have "k = 8" by simp
  then show ?case using "0.prems" by (subst drone_loop.simps) (simp add: duration_def)
next
  case (Suc d)
  then have k: "k < 8" by simp
  then have t: "75 / 2 * real k < duration" "75 / 2 * real k + 75 / 2 \<le> 300"
    by (simp_all add: duration_def)
  from drone_quarter_body [of "75 / 2 * real k" i s]
  obtain i2 s2 where b: "drone_body (const_rng (1 / 4)) (75 / 2 * real k) i s =
        Inr ((75 / 2 * real k + 75 / 2, i2), s2)"
    and e: "extends (ends_by (75 / 2 * real k + 75 / 2)) s s2"
    by (auto elim!: returnsE)
  have "extends (ends_by 300) s s2"
    using e by (rule extends_mono) (use t(2) in \<open>simp add: ends_by_def\<close>)
  then have a: "list_all (ends_by 300) (m_notes (midi s2))"
    using Suc.prems(2) by (rule extends_list_all)
  have eq: "75 / 2 * real k + 75 / 2 = 75 / 2 * real (Suc k)" by (simp add: algebra_simps)
  have u: "drone_loop (const_rng (1 / 4)) (75 / 2 * real k) i s =
      drone_loop (const_rng (1 / 4)) (75 / 2 * real (Suc k)) i2 s2"
    using b t(1) unfolding eq by (subst drone_loop.simps) simp
  have "d = 8 - Suc k" "Suc k \<le> 8" using Suc.hyps(2) k by simp_all
  from Suc.hyps(1) [OF this a, of i2] u show ?case by simp
qed

lemma late_note_ends: "late_note n \<Longrightarrow> ends_by 300 n"
  by (auto simp: late_note_def melody_note_def sparkle_note_def swell_note_def bass_note_def
        ends_by_def)

subsection \<open>The tonal centre at three cursors\<close>

lemma sqrt2_bounds: "7 / 5 \<le> sqrt 2" "sqrt 2 < 8 / 5"
proof -
  show "7 / 5 \<le> sqrt 2" by (rule real_le_rsqrt) (simp add: power2_eq_square)
  show "sqrt 2 < 8 / 5" by (rule real_less_lsqrt) (simp_all add: power2_eq_square)
qed

lemma sin_first_cursor: "sin (8 / duration * pi * 4) \<le> 1 / 2"
proof -
  have a: "- (pi / 2) \<le> 8 / duration * pi * 4" "8 / duration * pi * 4 \<le> pi / 2"
    "8 / duration * pi * 4 \<le> pi / 6" "- (pi / 2) \<le> pi / 6" "pi / 6 \<le> pi / 2"
    using pi_gt_zero unfolding duration_def by linarith+
  have "sin (8 / duration * pi * 4) \<le> sin (pi / 6)"
    using sin_mono_le_eq [OF a(1,2,4,5)] a(3) by blast
  then show ?thesis by (simp only: sin_30)
qed

lemma tonal_center_first: "tonal_center 8 \<le> 62"
proof -
  have "sin (8 / duration * pi * 4) * 5 \<le> 5 / 2" using sin_first_cursor by linarith
  then have "py_int (sin (8 / duration * pi * 4) * 5) \<le> 2"
    unfolding py_int_def by (auto simp: floor_le_iff ceiling_le_iff)
  then show ?thesis by (simp add: tonal_center_def Let_def)
qed

lemma claimed_center_first: "63 \<le> 60 + round (5 * sin (2 * pi * 4 * 8 / duration))"
proof -
  have a: "- (pi / 2) \<le> 2 * pi * 4 * 8 / duration" "2 * pi * 4 * 8 / duration \<le> pi / 2"
    "pi / 6 \<le> 2 * pi * 4 * 8 / duration" "- (pi / 2) \<le> pi / 6" "pi / 6 \<le> pi / 2"
    using pi_gt_zero unfolding duration_def by linarith+
  have "sin (pi / 6) \<le> sin (2 * pi * 4 * 8 / duration)"
    using sin_mono_le_eq [OF a(4,5,1,2)] a(3) by blast
  then have "1 / 2 \<le> sin (2 * pi * 4 * 8 / duration)" by (simp only: sin_30)
  then have "5 / 2 \<le> 5 * sin (2 * pi * 4 * 8 / duration)" by linarith
  then have "3 \<le> round (5 * sin (2 * pi * 4 * 8 / duration))"
    unfolding round_def le_floor_iff by simp
  then show ?thesis by linarith
qed

lemma tonal_center_at_quarter: "tonal_center (75 / 2) = 65"
  by (simp add: tonal_center_def duration_def py_int_def)

lemma claimed_center_at_quarter: "60 + round (5 * sin (2 * pi * 4 * (75 / 2) / duration)) = (60::int)"
  by (simp add: duration_def)

lemma py_int_eighth: "py_int (sqrt 2 / 2 * 5) = 3"
proof -
  have "\<lfloor>sqrt 2 / 2 * 5\<rfloor> = 3" using sqrt2_bounds by (intro floor_unique) simp_all
  moreover have "0 \<le> sqrt 2 / 2 * 5" by simp
  ultimately show ?thesis unfolding py_int_def by (simp only: if_True)
qed

lemma tonal_center_at_eighth: "tonal_center (75 / 4) = 63"
proof -
  have "75 / 4 / duration * pi * 4 = pi / 4" by (simp add: duration_def)
  then have "tonal_center (75 / 4) = 60 + py_int (sin (pi / 4) * 5)"
    unfolding tonal_center_def Let_def by (simp only:)
  then show ?thesis unfolding sin_45 py_int_eighth by simp
qed

lemma rounded_center_at_eighth: "60 + round (5 * sin (pi * 4 * (75 / 4) / duration)) = (64::int)"
proof -
  have "pi * 4 * (75 / 4) / duration = pi / 4" by (simp add: duration_def)
  then have "round (5 * sin (pi * 4 * (75 / 4) / duration)) = round (5 * (sqrt 2 / 2))"
    unfolding sin_45 [symmetric] by (simp only:)
  moreover have "round (5 * (sqrt 2 / 2)) = 4"
    unfolding round_def using sqrt2_bounds by (intro floor_unique) simp_all
  ultimately show ?thesis by simp
qed

subsection \<open>The interval pair, and the pitches of one melody iteration\<close>

lemma rng_ok_script: "rng_ok script_rng"
  by (auto simp: rng_ok_def script_rng_def split: list.splits)

lemma interval_pair_draws:
  assumes "sc \<noteq> []" "1 / 2 \<le> ch" "ch < 7 / 10"
    and "randbelow_f R (length sc) (rng s) = (k, g1)" "k < length sc"
    and "randbelow_f R 4 g1 = (j, g2)" "j < 4"
    and "randbelow_f R 16 g2 = (v, g3)"
  shows "\<exists>s'. gesture R ch t sc prev s = Inr (Some (sc ! k), s') \<and> rng s' = g3 \<and>
           m_notes (midi s') = m_notes (midi s) @
             [\<lparr>n_track = 0, n_channel = 1, n_pitch = sc ! k, n_time = t, n_duration = 4,
                n_volume = 35 + int v\<rparr>,
              \<lparr>n_track = 0, n_channel = 1, n_pitch = sc ! k + [2, 4, 5, 7] ! j, n_time = t + 0.3,
                n_duration = 3.5, n_volume = 35 + int v - 8\<rparr>]"
  using assms
  by (simp add: gesture_def interval_pair_def bnd_def ret_def lift_def addNote_def
        random_choice_def random_randint_def randbelow_def getitem_def Let_def eval_nat_numeral)

lemma get_scale_in:
  assumes "m \<in> set mode_names"
  shows "\<exists>sc. get_scale c m = Inr sc \<and> length sc = 7 \<and> (\<forall>x\<in>set sc. c \<le> x \<and> x \<le> c + 11)"
  using assms by (auto simp: mode_names_def modes_def get_scale_def)

lemma single_note_pitch:
  assumes "rng_ok R" "length sc = 7" and rg: "\<forall>x\<in>set sc. c \<le> x \<and> x \<le> c + 11"
  shows "returns (single_note R t sc prev) s (\<lambda>_ s'. extends (pitch_in c) s s')"
proof -
  have ne: "sc \<noteq> []" using assms(2) by auto
  show ?thesis
    unfolding single_note_def using assms(1,2) ne
    by (auto intro!: returns_random returns_choice [where xs = "[-1, 1, -2, 2]"]
          returns_choice_P [where xs = sc and P = "\<lambda>x. c \<le> x \<and> x \<le> c + 11", OF _ _ rg]
          returns_getitem_P [where xs = sc and P = "\<lambda>x. c \<le> x \<and> x \<le> c + 11", OF _ _ rg]
          returns_randint returns_uniform returns_index simp: pitch_in_def Let_def)
qed

lemma interval_pair_pitch:
  assumes "rng_ok R" "length sc = 7" and rg: "\<forall>x\<in>set sc. c \<le> x \<and> x \<le> c + 11"
  shows "returns (interval_pair R t sc) s (\<lambda>_ s'. extends (pitch_in c) s s')"
proof -
  have ne: "sc \<noteq> []" using assms(2) by auto
  show ?thesis
    unfolding interval_pair_def using assms(1,2) ne
    by (auto intro!: returns_choice [where xs = "[2, 4, 5, 7]"]
          returns_choice_P [where xs = sc and P = "\<lambda>x. c \<le> x \<and> x \<le> c + 11", OF _ _ rg]
          returns_randint simp: pitch_in_def Let_def)
qed

lemma descending_fragment_pitch:
  assumes "rng_ok R" "length sc = 7" and rg: "\<forall>x\<in>set sc. c \<le> x \<and> x \<le> c + 11"
  shows "returns (descending_fragment R t sc) s (\<lambda>_ s'. extends (pitch_in c) s s')"
proof -
  have ne: "drop 3 sc \<noteq> []" using assms(2) by auto
  have rg3: "\<forall>x\<in>set (drop 3 sc). c \<le> x \<and> x \<le> c + 11" using rg by (auto dest: in_set_dropD)
  show ?thesis
    unfolding descending_fragment_def using assms(1,2) ne
    by (auto intro!: returns_index
          returns_choice_P [where xs = "drop 3 sc" and P = "\<lambda>x. c \<le> x \<and> x \<le> c + 11", OF _ _ rg3]
          returns_getitem_P [where xs = sc and P = "\<lambda>x. c \<le> x \<and> x \<le> c + 11", OF _ _ rg]
          simp: pitch_in_def Let_def)
qed

lemma ascending_motif_pitch:
  assumes "rng_ok R" "length sc = 7" and rg: "\<forall>x\<in>set sc. c \<le> x \<and> x \<le> c + 11"
  shows "returns (ascending_motif R t sc) s (\<lambda>_ s'. extends (pitch_in c) s s')"
  unfolding ascending_motif_def using assms(1,2)
  by (auto intro!: returns_randint
        returns_getitem_P [where xs = sc and P = "\<lambda>x. c \<le> x \<and> x \<le> c + 11", OF _ _ rg]
        simp: pitch_in_def Let_def)

lemma gesture_pitch:
  assumes "rng_ok R" "length sc = 7" "\<forall>x\<in>set sc. c \<le> x \<and> x \<le> c + 11"
    "\<And>x s'. extends (pitch_in c) s s' \<Longrightarrow> Q x s'"
  shows "returns (gesture R ch t sc prev) s Q"
proof -
  have "returns (gesture R ch t sc prev) s (\<lambda>_ s'. extends (pitch_in c) s s')"
    unfolding gesture_def
    using single_note_pitch [OF assms(1-3)] interval_pair_pitch [OF assms(1-3)]
      descending_fragment_pitch [OF assms(1-3)] ascending_motif_pitch [OF assms(1-3)]
    by simp
  then show ?thesis by (rule returns_mono) (rule assms(4))
qed

lemma returns_get_scale_in:
  assumes "m \<in> set mode_names"
    "\<And>sc. length sc = 7 \<Longrightarrow> \<forall>x\<in>set sc. c \<le> x \<and> x \<le> c + 11 \<Longrightarrow> Q sc s"
  shows "returns (lift (get_scale c m)) s Q"
  using get_scale_in [OF assms(1), of c] assms(2) by auto

lemma melody_body_pitch:
  assumes "rng_ok R" "m \<in> set mode_names"
  shows "returns (melody_body R t m prev) s (\<lambda>_ s'. extends (pitch_in (tonal_center t)) s s')"
  unfolding melody_body_def Let_def using assms mode_names_nonempty
  by (auto intro!: returns_random returns_choice [where xs = mode_names] returns_get_scale_in
        gesture_pitch [where c = "tonal_center t"] returns_uniform)

lemma tonal_center_closed_form:
  "tonal_center time =
     60 + (if 0 \<le> sin (4 * pi * time / 300) then \<lfloor>5 * sin (4 * pi * time / 300)\<rfloor>
           else \<lceil>5 * sin (4 * pi * time / 300)\<rceil>)"
proof -
  have "time / 300 * pi * 4 = 4 * pi * time / 300" by simp
  then show ?thesis
    by (simp add: tonal_center_def duration_def py_int_def mult.commute)
qed

subsection \<open>The notes of a drone iteration, and the last one\<close>

lemma drone_body_exact:
  assumes "getitem roots (i mod int (length roots)) = Inr p"
  shows "\<exists>s'. drone_body R t i s =
           Inr ((t + (35 + (45 - 35) * fst (random_f R (rng s))), i + 1), s') \<and>
         m_notes (midi s') = m_notes (midi s) @
           [\<lparr>n_track = 0, n_channel = 0, n_pitch = p, n_time = t,
              n_duration = 35 + (45 - 35) * fst (random_f R (rng s)), n_volume = 30\<rparr>,
            \<lparr>n_track = 0, n_channel = 0, n_pitch = p + 7, n_time = t + 2,
              n_duration = 35 + (45 - 35) * fst (random_f R (rng s)) - 2, n_volume = 25\<rparr>] @
           (if fst (random_f R (snd (random_f R (rng s)))) < 0.4
            then [\<lparr>n_track = 0, n_channel = 0,
                    n_pitch = (if fst (random_f R (snd (random_f R (snd (random_f R (rng s)))))) < 0.6
                               then p + 4 else p + 3),
                    n_time = t + 5,
                    n_duration = 35 + (45 - 35) * fst (random_f R (rng s)) - 8, n_volume = 20\<rparr>]
            else []) \<and>
         tempos (midi s') = tempos (midi s) \<and> programs (midi s') = programs (midi s) \<and>
         numTracks (midi s') = numTracks (midi s)"
  unfolding drone_body_def assms
  by (simp add: bnd_def ret_def lift_def addNote_def random_uniform_def random_random_def
        case_prod_unfold Let_def)

lemma ends_by_mono: "ends_by t n \<Longrightarrow> t \<le> T \<Longrightarrow> ends_by T n"
  by (simp add: ends_by_def)

lemma drone_loop_final:
  assumes "rng_ok R"
  shows "0 \<le> t \<Longrightarrow> t < duration \<Longrightarrow> list_all (ends_by t) (m_notes (midi s)) \<Longrightarrow>
         drone_loop R t i s = Some (Inr ((T, i'), s')) \<Longrightarrow>
         (\<exists>p t0. t0 < duration \<and> duration \<le> T \<and> 35 \<le> T - t0 \<and> T - t0 \<le> 45 \<and>
            \<lparr>n_track = 0, n_channel = 0, n_pitch = p, n_time = t0, n_duration = T - t0,
              n_volume = 30\<rparr> \<in> set (m_notes (midi s')) \<and>
            \<lparr>n_track = 0, n_channel = 0, n_pitch = p + 7, n_time = t0 + 2, n_duration = T - t0 - 2,
              n_volume = 25\<rparr> \<in> set (m_notes (midi s'))) \<and>
         list_all (ends_by T) (m_notes (midi s'))"
proof (induction "nat \<lceil>duration - t\<rceil>" arbitrary: t i s rule: less_induct)
  case less
  define hold where "hold = 35 + (45 - 35) * fst (random_f R (rng s))"
  have u: "0 \<le> fst (random_f R (rng s))" "fst (random_f R (rng s)) < 1"
    using assms by (simp_all add: rng_ok_def)
  have h: "35 \<le> hold" "hold \<le> 45" using u by (simp_all add: hold_def)
  obtain p where p: "getitem roots (i mod int (length roots)) = Inr p"
    using roots_item by blast
  obtain s2 where b: "drone_body R t i s = Inr ((t + hold, i + 1), s2)"
    and n: "m_notes (midi s2) = m_notes (midi s) @
           [\<lparr>n_track = 0, n_channel = 0, n_pitch = p, n_time = t, n_duration = hold, n_volume = 30\<rparr>,
            \<lparr>n_track = 0, n_channel = 0, n_pitch = p + 7, n_time = t + 2, n_duration = hold - 2,
              n_volume = 25\<rparr>] @
           (if fst (random_f R (snd (random_f R (rng s)))) < 0.4
            then [\<lparr>n_track = 0, n_channel = 0,
                    n_pitch = (if fst (random_f R (snd (random_f R (snd (random_f R (rng s)))))) < 0.6
                               then p + 4 else p + 3),
                    n_time = t + 5, n_duration = hold - 8, n_volume = 20\<rparr>]
            else [])"
    using drone_body_exact [OF p, of R t s] unfolding hold_def by blast
  have old: "list_all (ends_by (t + hold)) (m_notes (midi s))"
    using less.prems(3) h(1) by (auto simp: list_all_iff intro: ends_by_mono)
  have e2: "list_all (ends_by (t + hold)) (m_notes (midi s2))"
    unfolding n using old by (simp add: ends_by_def)
  have l: "drone_loop R t i s = drone_loop R (t + hold) (i + 1) s2"
    using b less.prems(2) by (subst drone_loop.simps) simp
  show ?case
  proof (cases "t + hold < duration")
    case True
    have "nat \<lceil>duration - (t + hold)\<rceil> < nat \<lceil>duration - t\<rceil>"
      using less.prems(2) h(1) by linarith
    moreover have "0 \<le> t + hold" using less.prems(1) h(1) by simp
    moreover have "drone_loop R (t + hold) (i + 1) s2 = Some (Inr ((T, i'), s'))"
      using l less.prems(4) by simp
    ultimately show ?thesis using less.hyps True e2 by blast
  next
    case False
    then have "drone_loop R (t + hold) (i + 1) s2 = Some (Inr ((t + hold, i + 1), s2))"
      by (subst drone_loop.simps) simp
    with l less.prems(4) have eq: "T = t + hold" "s' = s2" by simp_all
    have "\<lparr>n_track = 0, n_channel = 0, n_pitch = p, n_time = t, n_duration = T - t,
              n_volume = 30\<rparr> \<in> set (m_notes (midi s'))"
      "\<lparr>n_track = 0, n_channel = 0, n_pitch = p + 7, n_time = t + 2, n_duration = T - t - 2,
              n_volume = 25\<rparr> \<in> set (m_notes (midi s'))"
      unfolding eq n by simp_all
    moreover have "t < duration" "duration \<le> T" "35 \<le> T - t" "T - t \<le> 45"
      using less.prems(2) False h unfolding eq by simp_all
    ultimately show ?thesis using e2 unfolding eq by blast
  qed
qed

lemma extends_subset: "extends L s s' \<Longrightarrow> set (m_notes (midi s)) \<subseteq> set (m_notes (midi s'))"
  by (auto simp: extends_def)

lemma late_note_before_end: "late_note n \<Longrightarrow> n_time n + n_duration n < duration"
  by (auto simp: late_note_def melody_note_def sparkle_note_def swell_note_def bass_note_def
        duration_def)

lemma drone_note_tag: "drone_note n \<Longrightarrow> n_channel n = 0 \<and> n_volume n \<noteq> 28"
  by (auto simp: drone_note_def)

lemma other_layers_before_end:
  assumes "list_all (\<lambda>n. drone_note n \<or> late_note n) ns"
  shows "\<forall>n\<in>set ns. n_channel n \<noteq> 0 \<or> n_volume n = 28 \<longrightarrow> n_time n + n_duration n < duration"
proof
  fix n assume "n \<in> set ns"
  then have "drone_note n \<or> late_note n" using assms by (simp add: list_all_iff)
  then show "n_channel n \<noteq> 0 \<or> n_volume n = 28 \<longrightarrow> n_time n + n_duration n < duration"
    using drone_note_tag [of n] late_note_before_end [of n] by auto
qed

lemma drone_body_notes:
  "\<exists>p s'. getitem roots (i mod int (length roots)) = Inr p \<and>
            drone_body R t i s =
              Inr ((t + (35 + (45 - 35) * fst (random_f R (rng s))), i + 1), s') \<and>
            m_notes (midi s') = m_notes (midi s) @
              [\<lparr>n_track = 0, n_channel = 0, n_pitch = p, n_time = t,
                 n_duration = 35 + (45 - 35) * fst (random_f R (rng s)), n_volume = 30\<rparr>,
               \<lparr>n_track = 0, n_channel = 0, n_pitch = p + 7, n_time = t + 2,
                 n_duration = 35 + (45 - 35) * fst (random_f R (rng s)) - 2, n_volume = 25\<rparr>] @
              (if fst (random_f R (snd (random_f R (rng s)))) < 0.4
               then [\<lparr>n_track = 0, n_channel = 0,
                       n_pitch = (if fst (random_f R (snd (random_f R (snd (random_f R (rng s)))))) < 0.6
                                  then p + 4 else p + 3),
                       n_time = t + 5,
                       n_duration = 35 + (45 - 35) * fst (random_f R (rng s)) - 8,
                       n_volume = 20\<rparr>]
               else [])"
proof -
  obtain p where p: "getitem roots (i mod int (length roots)) = Inr p"
    using roots_item by blast
  from drone_body_exact [OF p, of R t s] obtain s' where
    b: "drone_body R t i s =
              Inr ((t + (35 + (45 - 35) * fst (random_f R (rng s))), i + 1), s') \<and>
         m_notes (midi s') = m_notes (midi s) @
           [\<lparr>n_track = 0, n_channel = 0, n_pitch = p, n_time = t,
              n_duration = 35 + (45 - 35) * fst (random_f R (rng s)), n_volume = 30\<rparr>,
            \<lparr>n_track = 0, n_channel = 0, n_pitch = p + 7, n_time = t + 2,
              n_duration = 35 + (45 - 35) * fst (random_f R (rng s)) - 2, n_volume = 25\<rparr>] @
           (if fst (random_f R (snd (random_f R (rng s)))) < 0.4
            then [\<lparr>n_track = 0, n_channel = 0,
                    n_pitch = (if fst (random_f R (snd (random_f R (snd (random_f R (rng s)))))) < 0.6
                               then p + 4 else p + 3),
                    n_time = t + 5,
                    n_duration = 35 + (45 - 35) * fst (random_f R (rng s)) - 8, n_volume = 20\<rparr>]
            else []) \<and>
         tempos (midi s') = tempos (midi s) \<and> programs (midi s') = programs (midi s) \<and>
         numTracks (midi s') = numTracks (midi s)"
    by (rule exE)
  show ?thesis
    apply (rule exI [of _ p])
    apply (rule exI [of _ s'])
    apply (rule conjI [OF p])
    apply (rule conjI [OF conjunct1 [OF b]])
    apply (rule conjunct1 [OF conjunct2 [OF b]])
    done
qed

lemma drone_run_final:
  assumes "rng_ok R"
  shows "\<exists>T i1 s1 w p t0.
            drone_loop R 0 0 \<lparr>rng = g, midi = new_midi\<rparr> = Some (Inr ((T, i1), s1)) \<and>
            generate_ambient R g = Some (Inr w) \<and>
            t0 < duration \<and> duration \<le> T \<and> 35 \<le> T - t0 \<and> T - t0 \<le> 45 \<and>
            \<lparr>n_track = 0, n_channel = 0, n_pitch = p, n_time = t0, n_duration = T - t0,
              n_volume = 30\<rparr> \<in> set (m_notes (midi w)) \<and>
            \<lparr>n_track = 0, n_channel = 0, n_pitch = p + 7, n_time = t0 + 2, n_duration = T - t0 - 2,
              n_volume = 25\<rparr> \<in> set (m_notes (midi w)) \<and>
            (\<forall>n\<in>set (m_notes (midi w)). n_time n + n_duration n \<le> T) \<and>
            (\<forall>n\<in>set (m_notes (midi w)).
               n_channel n \<noteq> 0 \<or> n_volume n = 28 \<longrightarrow> n_time n + n_duration n < duration)"
proof -
  let ?s0 = "\<lparr>rng = g, midi = new_midi\<rparr>"
  obtain T i1 s1 w where d: "drone_loop R 0 0 ?s0 = Some (Inr ((T, i1), s1))"
    and g: "generate_ambient R g = Some (Inr w)"
    and e1: "extends drone_note ?s0 s1" and e2: "extends late_note s1 w"
    using generate_run [OF assms, of g] by blast
  have a0: "list_all (ends_by 0) (m_notes (midi ?s0))" by (simp add: new_midi_simps)
  have z: "(0::real) \<le> 0" "0 < duration" by (simp_all add: duration_def)
  from drone_loop_final [OF assms z a0 d]
  obtain q t0 where f: "t0 < duration" "duration \<le> T" "35 \<le> T - t0" "T - t0 \<le> 45"
    and r: "\<lparr>n_track = 0, n_channel = 0, n_pitch = q, n_time = t0, n_duration = T - t0,
              n_volume = 30\<rparr> \<in> set (m_notes (midi s1))"
      "\<lparr>n_track = 0, n_channel = 0, n_pitch = q + 7, n_time = t0 + 2, n_duration = T - t0 - 2,
              n_volume = 25\<rparr> \<in> set (m_notes (midi s1))"
    and a1: "list_all (ends_by T) (m_notes (midi s1))"
    by (elim exE conjE)
  note sub = extends_subset [OF e2]
  have r1: "\<lparr>n_track = 0, n_channel = 0, n_pitch = q, n_time = t0, n_duration = T - t0,
              n_volume = 30\<rparr> \<in> set (m_notes (midi w))"
    by (rule subsetD [OF sub r(1)])
  have r2: "\<lparr>n_track = 0, n_channel = 0, n_pitch = q + 7, n_time = t0 + 2, n_duration = T - t0 - 2,
              n_volume = 25\<rparr> \<in> set (m_notes (midi w))"
    by (rule subsetD [OF sub r(2)])
  have "list_all (ends_by T) (m_notes (midi w))"
  proof (rule extends_list_all [OF e2 a1])
    fix n assume "late_note n"
    then show "ends_by T n" using late_note_before_end [of n] f(2) by (simp add: ends_by_def)
  qed
  then have a: "\<forall>n\<in>set (m_notes (midi w)). n_time n + n_duration n \<le> T"
    by (simp add: list_all_iff ends_by_def)
  have "list_all (\<lambda>n. drone_note n \<or> late_note n) (m_notes (midi s1))"
    by (rule extends_list_all [OF e1]) (simp_all add: new_midi_simps)
  then have "list_all (\<lambda>n. drone_note n \<or> late_note n) (m_notes (midi w))"
    by (rule extends_list_all [OF e2]) simp
  then have c: "\<forall>n\<in>set (m_notes (midi w)).
      n_channel n \<noteq> 0 \<or> n_volume n = 28 \<longrightarrow> n_time n + n_duration n < duration"
    by (rule other_layers_before_end)
  show ?thesis
    apply (rule exI [of _ T])
    apply (rule exI [of _ i1])
    apply (rule exI [of _ s1])
    apply (rule exI [of _ w])
    apply (rule exI [of _ q])
    apply (rule exI [of _ t0])
    apply (intro conjI)
    apply (rule d g f r1 r2 a c)+
    done
qed

section \<open>The claims\<close>

text \<open>
  C1. Two runs of the script are deterministic. Whatever state the random generator has when
  the process starts (\<open>g1\<close> in one run, \<open>g2\<close> in the other), \<^verbatim>\<open>random.seed(123)\<close> replaces
  it, and both runs return, without an exception, the same \<^verbatim>\<open>MIDIFile\<close> object: the same
  note events (track, channel, pitch, start, duration, velocity) in the same order, so the
  file \<^verbatim>\<open>writeFile\<close> produces from it is the same.
\<close>

theorem script_deterministic:
  "rng_ok R \<Longrightarrow> \<exists>w. script_main R g1 = Some (Inr w) \<and> script_main R g2 = Some (Inr w)"
  using generate_notes [of R "seed_f R 123"] by (auto simp: script_main_def random_seed_def)

theorem script_deterministic_witness:
  "\<exists>w. script_main flip_rng True = Some (Inr w) \<and> script_main flip_rng False = Some (Inr w)"
  by (rule script_deterministic [OF rng_ok_flip])

text \<open>
  C2. In every run (every generator state, every sequence of draws within the documented
  ranges) every note event of the five layers has pitch and velocity in \<open>[0, 127]\<close>, a
  strictly positive duration and a non-negative start. The third note of the drone (the
  channel 0 note of velocity 20, duration \<open>hold - 8\<close>) lasts at least 27, and the velocities
  of the sparkle layer (channel 2), cascade included, are at least 6, hence non-negative.
\<close>

theorem note_ranges:
  assumes "rng_ok R"
  shows "\<exists>w. generate_ambient R g = Some (Inr w) \<and>
           (\<forall>n\<in>set (m_notes (midi w)). note_ok n \<and>
              (n_channel n = 0 \<and> n_volume n = 20 \<longrightarrow> 27 \<le> n_duration n) \<and>
              (n_channel n = 2 \<longrightarrow> 6 \<le> n_volume n))"
proof -
  obtain w where g: "generate_ambient R g = Some (Inr w)"
    and a: "list_all (\<lambda>n. drone_note n \<or> late_note n) (m_notes (midi w))"
    using generate_notes [OF assms, of g] by blast
  show ?thesis using g a layer_note_ok unfolding list_all_iff by blast
qed

theorem note_ranges_witness:
  "\<exists>w. generate_ambient (const_rng 0) () = Some (Inr w) \<and> m_notes (midi w) \<noteq> [] \<and>
     (\<forall>n\<in>set (m_notes (midi w)). note_ok n \<and>
        (n_channel n = 0 \<and> n_volume n = 20 \<longrightarrow> 27 \<le> n_duration n) \<and>
        (n_channel n = 2 \<longrightarrow> 6 \<le> n_volume n))"
  using note_ranges [OF rng_ok_zero, of "()"] generate_notes [OF rng_ok_zero, of "()"]
  by fastforce

text \<open>
  C3. \<^verbatim>\<open>get_scale\<close>, on any root pitch and any of the four registered modes, returns seven
  strictly increasing pitches, the first of which is the root; on any other mode name the
  dictionary lookup raises (\<^verbatim>\<open>KeyError\<close>, the error the specification calls
  UnknownModeError); and \<^verbatim>\<open>get_scale(60, 'dorian')\<close> is \<open>[60, 62, 63, 65, 67, 69, 70]\<close>.
  The function is a HOL function of its two arguments: it has no state to depend on.
\<close>

theorem get_scale_contract:
  "(mode_name \<in> set mode_names \<longrightarrow>
      (\<exists>sc. get_scale root_n mode_name = Inr sc \<and> length sc = 7 \<and> sorted_wrt (<) sc \<and>
            hd sc = root_n)) \<and>
   (mode_name \<notin> set mode_names \<longrightarrow> get_scale root_n mode_name = Inl (KeyError mode_name)) \<and>
   mode_names = [''lydian'', ''dorian'', ''mixolydian'', ''aeolian''] \<and>
   get_scale 60 ''dorian'' = Inr [60, 62, 63, 65, 67, 69, 70]"
  using get_scale_registered [of mode_name root_n] get_scale_unregistered [of mode_name root_n]
    mode_names_eq dorian_60
  by blast

theorem get_scale_contract_witness:
  "''lydian'' \<in> set mode_names \<and>
   get_scale 48 ''lydian'' = Inr [48, 50, 52, 54, 55, 57, 59] \<and>
   ''locrian'' \<notin> set mode_names \<and>
   get_scale 48 ''locrian'' = Inl (KeyError ''locrian'')"
proof -
  have a: "''lydian'' \<in> set mode_names" and b: "''locrian'' \<notin> set mode_names"
    by (simp_all add: mode_names_eq)
  show ?thesis
    using a b lydian_48 get_scale_contract [of "''locrian''" 48] get_scale_contract [of "''lydian''" 48]
    by blast
qed

text \<open>
  C4 as stated fails: the centre is not \<open>60 + round(5 * sin(2\<pi> * 4 * cursor / 300))\<close>.
  In the first iteration of every run, at the cursor 8, the code's centre is at most 62 and
  the stated formula gives at least 63. At the cursor 37.5 the code's centre is 65 and the
  stated formula gives 60 (the code's angle is \<open>\<pi> * 4 * cursor / 300\<close>, half the stated
  one); at the cursor 18.75 the code's centre is 63 where rounding, even of the code's own
  angle, gives 64 (\<^verbatim>\<open>int\<close> truncates).
\<close>

theorem tonal_center_counterexample:
  "tonal_center 8 < 60 + round (5 * sin (2 * pi * 4 * 8 / duration)) \<and>
   tonal_center (75 / 2) = 65 \<and>
   60 + round (5 * sin (2 * pi * 4 * (75 / 2) / duration)) = (60::int) \<and>
   tonal_center (75 / 4) = 63 \<and>
   60 + round (5 * sin (pi * 4 * (75 / 4) / duration)) = (64::int)"
proof -
  have "tonal_center 8 < 60 + round (5 * sin (2 * pi * 4 * 8 / duration))"
    using tonal_center_first claimed_center_first by linarith
  then show ?thesis
    using tonal_center_at_quarter claimed_center_at_quarter tonal_center_at_eighth
      rounded_center_at_eighth by blast
qed

text \<open>
  C4 (amended). In every iteration of the melody loop the tonal centre is
  \<open>60 + int(5 * sin(4\<pi> * cursor / 300))\<close>, where \<^verbatim>\<open>int\<close> truncates towards zero; it lies
  between 55 and 65. The scale of the iteration is built on it: the iteration returns, and
  every pitch it emits lies between the centre and the centre plus 18 (a scale member is at
  most 11 above the centre, the second note of an interval pair at most 7 above that).
\<close>

theorem tonal_center_truncates:
  assumes "rng_ok R" "m \<in> set mode_names"
  shows "tonal_center time =
           60 + (if 0 \<le> sin (4 * pi * time / 300) then \<lfloor>5 * sin (4 * pi * time / 300)\<rfloor>
                 else \<lceil>5 * sin (4 * pi * time / 300)\<rceil>) \<and>
         55 \<le> tonal_center time \<and> tonal_center time \<le> 65 \<and>
         (\<exists>r s' ns. melody_body R time m prev s = Inr (r, s') \<and>
            m_notes (midi s') = m_notes (midi s) @ ns \<and>
            list_all (\<lambda>n. tonal_center time \<le> n_pitch n \<and> n_pitch n \<le> tonal_center time + 18) ns)"
proof -
  from melody_body_pitch [OF assms, of time prev s]
  obtain r s' where b: "melody_body R time m prev s = Inr (r, s')"
    and e: "extends (pitch_in (tonal_center time)) s s'"
    by (rule returnsE)
  from e obtain ns where "m_notes (midi s') = m_notes (midi s) @ ns"
    "list_all (pitch_in (tonal_center time)) ns"
    by (auto simp: extends_def)
  then have "\<exists>ns. m_notes (midi s') = m_notes (midi s) @ ns \<and>
      list_all (\<lambda>n. tonal_center time \<le> n_pitch n \<and> n_pitch n \<le> tonal_center time + 18) ns"
    by (auto simp: pitch_in_def list_all_iff)
  with b tonal_center_closed_form [of time] tonal_center_bounds [of time] show ?thesis by blast
qed

theorem tonal_center_truncates_witness:
  "\<exists>r s' ns. melody_body (const_rng 0) (75 / 2) ''lydian'' None \<lparr>rng = (), midi = new_midi\<rparr> =
       Inr (r, s') \<and>
     m_notes (midi s') = m_notes (midi \<lparr>rng = (), midi = new_midi\<rparr>) @ ns \<and>
     list_all (\<lambda>n. 65 \<le> n_pitch n \<and> n_pitch n \<le> 65 + 18) ns"
proof -
  have "''lydian'' \<in> set mode_names" by (simp add: mode_names_eq)
  from tonal_center_truncates [OF rng_ok_zero this, of "75 / 2" None "\<lparr>rng = (), midi = new_midi\<rparr>"]
  show ?thesis unfolding tonal_center_at_quarter by blast
qed

text \<open>
  C5. The interval pair does not step by scale degrees. One whole melody iteration at the
  cursor 75 (centre 60, mode lydian) whose gesture draw is 0.6: the first pitch is
  \<open>scale[0] = 60\<close>, the interval drawn is 5, and the second pitch emitted is 65, five
  semitones above the first. Five scale steps above index 0 is \<open>scale[5] = 69\<close>; 65 is not
  a member of the scale at all. The comment on the line that draws the interval names the
  intervals as scale degrees, and the other gestures step by scale index.
\<close>

theorem interval_pair_at_failing_input:
  "melody_body script_rng 75 ''lydian'' None \<lparr>rng = [500, 600, 0, 2, 5, 500, 500], midi = MIDIFile 4\<rparr> =
     Inr ((81, ''lydian'', Some 60),
       \<lparr>rng = [], midi = (MIDIFile 4)\<lparr>m_notes :=
          [\<lparr>n_track = 0, n_channel = 1, n_pitch = 60, n_time = 75, n_duration = 4, n_volume = 40\<rparr>,
           \<lparr>n_track = 0, n_channel = 1, n_pitch = 65, n_time = 75 + 0.3, n_duration = 3.5,
             n_volume = 32\<rparr>]\<rparr>\<rparr>) \<and>
   get_scale (tonal_center 75) ''lydian'' = Inr [60, 62, 64, 66, 67, 69, 71] \<and>
   getitem [60, 62, 64, 66, 67, 69, 71 :: int] (0 + 5) = Inr 69 \<and>
   65 \<notin> set [60, 62, 64, 66, 67, 69, 71 :: int]"
  by (simp add: melody_body_def gesture_def interval_pair_def bnd_def ret_def lift_def
        random_random_def random_uniform_def random_choice_def random_randint_def randbelow_def
        script_rng_def getitem_def get_scale_def modes_def tonal_center_def py_int_def
        duration_def addNote_def MIDIFile_def Let_def)

text \<open>
  C6 as stated fails. One whole melody iteration whose gesture is the interval pair: the
  two notes emitted have the pitches 62 and 64, and \<^verbatim>\<open>last_note\<close> is 62 afterwards, the first
  note of the pair and not the last one emitted.
\<close>

theorem last_note_counterexample:
  "melody_body script_rng 75 ''dorian'' (Some 67) \<lparr>rng = [500, 600, 1, 0, 0, 500, 500], midi = MIDIFile 4\<rparr> =
     Inr ((81, ''dorian'', Some 62),
       \<lparr>rng = [], midi = (MIDIFile 4)\<lparr>m_notes :=
          [\<lparr>n_track = 0, n_channel = 1, n_pitch = 62, n_time = 75, n_duration = 4, n_volume = 35\<rparr>,
           \<lparr>n_track = 0, n_channel = 1, n_pitch = 64, n_time = 75 + 0.3, n_duration = 3.5,
             n_volume = 27\<rparr>]\<rparr>\<rparr>)"
  by (simp add: melody_body_def gesture_def interval_pair_def bnd_def ret_def lift_def
        random_random_def random_uniform_def random_choice_def random_randint_def randbelow_def
        script_rng_def getitem_def get_scale_def modes_def tonal_center_def py_int_def
        duration_def addNote_def MIDIFile_def Let_def)

text \<open>
  C6 (amended). Every gesture returns and sets \<^verbatim>\<open>last_note\<close>. After a single note, a
  descending fragment (3 notes) and an ascending motif (4 notes) it is the pitch of the last
  note the gesture emitted; after an interval pair (2 notes) it is the pitch of the first
  note of the pair.
\<close>

theorem last_note_after_gesture:
  assumes "rng_ok R" "length sc = 7"
  shows "\<exists>r s' ns. gesture R ch t sc prev s = Inr (r, s') \<and>
           m_notes (midi s') = m_notes (midi s) @ ns \<and>
           (if ch < 0.5 then length ns = 1 \<and> r = Some (n_pitch (last ns))
            else if ch < 0.7 then length ns = 2 \<and> r = Some (n_pitch (hd ns))
            else if ch < 0.85 then length ns = 3 \<and> r = Some (n_pitch (last ns))
            else length ns = 4 \<and> r = Some (n_pitch (last ns)))"
proof -
  from gesture_last [OF assms, of ch t prev s]
  obtain r s' where g: "gesture R ch t sc prev s = Inr (r, s')"
    and l: "if ch < 0.5 then emits s s' 1 \<and> r = Some (n_pitch (last (emitted s s')))
           else if ch < 0.7 then emits s s' 2 \<and> r = Some (n_pitch (hd (emitted s s')))
           else if ch < 0.85 then emits s s' 3 \<and> r = Some (n_pitch (last (emitted s s')))
           else emits s s' 4 \<and> r = Some (n_pitch (last (emitted s s')))"
    by (rule returnsE)
  have "m_notes (midi s') = m_notes (midi s) @ emitted s s' \<and>
      (if ch < 0.5 then length (emitted s s') = 1 \<and> r = Some (n_pitch (last (emitted s s')))
       else if ch < 0.7 then length (emitted s s') = 2 \<and> r = Some (n_pitch (hd (emitted s s')))
       else if ch < 0.85 then length (emitted s s') = 3 \<and> r = Some (n_pitch (last (emitted s s')))
       else length (emitted s s') = 4 \<and> r = Some (n_pitch (last (emitted s s'))))"
    using l by (auto simp: emits_def split: if_splits)
  with g show ?thesis by blast
qed

theorem last_note_after_gesture_witness:
  "\<exists>r s' ns. gesture (const_rng 0) (3 / 5) 75 [60, 62, 63, 65, 67, 69, 70] (Some 67)
       \<lparr>rng = (), midi = new_midi\<rparr> = Inr (r, s') \<and>
     m_notes (midi s') = m_notes (midi \<lparr>rng = (), midi = new_midi\<rparr>) @ ns \<and>
     length ns = 2 \<and> r = Some (n_pitch (hd ns))"
  using last_note_after_gesture [OF rng_ok_zero, of "[60, 62, 63, 65, 67, 69, 70]" "3 / 5" 75
      "Some 67" "\<lparr>rng = (), midi = new_midi\<rparr>"]
  by simp

text \<open>
  C7. What the code does about tracks: \<^verbatim>\<open>MIDIFile(4)\<close> declares four tracks and the tempo 55
  is set once on track 0, but every \<^verbatim>\<open>addProgramChange\<close> and every \<^verbatim>\<open>addNote\<close> call passes
  track 0 and tells the layers apart by the channel argument (0 to 3). So in every run all
  note events lie on track 0, the melody events (channel 1) among them, and the programs
  89, 0, 8, 48 are set on channels 0, 1, 2, 3 of track 0.
\<close>

theorem events_all_on_track_zero:
  assumes "rng_ok R"
  shows "\<exists>w. generate_ambient R g = Some (Inr w) \<and> numTracks (midi w) = 4 \<and>
           tempos (midi w) = [(0, 0, 55)] \<and>
           programs (midi w) = [(0, 0, 0, 89), (0, 1, 0, 0), (0, 2, 0, 8), (0, 3, 0, 48)] \<and>
           list_all (\<lambda>n. n_track n = 0) (m_notes (midi w)) \<and>
           list_ex (\<lambda>n. n_track n = 0 \<and> n_channel n = 1) (m_notes (midi w))"
proof -
  obtain w where g: "generate_ambient R g = Some (Inr w)"
    and f: "numTracks (midi w) = 4" "tempos (midi w) = [(0, 0, 55)]"
      "programs (midi w) = [(0, 0, 0, 89), (0, 1, 0, 0), (0, 2, 0, 8), (0, 3, 0, 48)]"
    and a: "list_all (\<lambda>n. drone_note n \<or> late_note n) (m_notes (midi w))"
    and x: "list_ex melody_note (m_notes (midi w))"
    using generate_notes [OF assms, of g] by blast
  have "list_all (\<lambda>n. n_track n = 0) (m_notes (midi w))"
    using a layer_note_ok unfolding list_all_iff by blast
  moreover have "list_ex (\<lambda>n. n_track n = 0 \<and> n_channel n = 1) (m_notes (midi w))"
    using x unfolding list_ex_iff melody_note_def by blast
  ultimately show ?thesis using g f by blast
qed

theorem events_all_on_track_zero_witness:
  "\<exists>w. generate_ambient (const_rng 0) () = Some (Inr w) \<and> numTracks (midi w) = 4 \<and>
     tempos (midi w) = [(0, 0, 55)] \<and>
     programs (midi w) = [(0, 0, 0, 89), (0, 1, 0, 0), (0, 2, 0, 8), (0, 3, 0, 48)] \<and>
     list_all (\<lambda>n. n_track n = 0) (m_notes (midi w)) \<and>
     list_ex (\<lambda>n. n_track n = 0 \<and> n_channel n = 1) (m_notes (midi w))"
  by (rule events_all_on_track_zero [OF rng_ok_zero])

text \<open>
  C8. Every generation loop terminates, for every sequence of draws. One iteration of a loop
  body returns and moves the cursor forward by a strictly positive amount (drone hold in
  \<open>[35, 45]\<close>, melody gap in \<open>[3, 9]\<close> or \<open>[12, 20]\<close>, sparkle gap in \<open>[8, 18]\<close>, bass gap in
  \<open>[25, 45]\<close>), and each loop, from its start or any later cursor, returns with the cursor at
  or beyond its cutoff; so \<^verbatim>\<open>generate_ambient\<close> returns.
\<close>

theorem layer_loops_terminate:
  assumes "rng_ok R"
  shows "(0 \<le> td \<longrightarrow>
            (\<exists>t' i' s'. drone_body R td i sd = Inr ((t', i'), s') \<and> 35 \<le> t' - td \<and> t' - td \<le> 45) \<and>
            (\<exists>t' i' s'. drone_loop R td i sd = Some (Inr ((t', i'), s')) \<and> duration \<le> t')) \<and>
         (8 \<le> tm \<and> m \<in> set mode_names \<longrightarrow>
            (tm < duration - 10 \<longrightarrow>
               (\<exists>t' m' p' s'. melody_body R tm m prev sm = Inr ((t', m', p'), s') \<and>
                  (3 \<le> t' - tm \<and> t' - tm \<le> 9 \<or> 12 \<le> t' - tm \<and> t' - tm \<le> 20))) \<and>
            (\<exists>t' m' p' s'. melody_loop R tm m prev sm = Some (Inr ((t', m', p'), s')) \<and>
               duration - 10 \<le> t')) \<and>
         (20 \<le> ts \<longrightarrow>
            (ts < duration - 5 \<longrightarrow>
               (\<exists>t' s'. sparkle_body R ts ss = Inr (t', s') \<and> 8 \<le> t' - ts \<and> t' - ts \<le> 18)) \<and>
            (\<exists>t' s'. sparkle_loop R ts ss = Some (Inr (t', s')) \<and> duration - 5 \<le> t')) \<and>
         (30 \<le> tb \<longrightarrow>
            (tb < duration - 20 \<longrightarrow>
               (\<exists>t' s'. bass_body R tb sb = Inr (t', s') \<and> 25 \<le> t' - tb \<and> t' - tb \<le> 45)) \<and>
            (\<exists>t' s'. bass_loop R tb sb = Some (Inr (t', s')) \<and> duration - 20 \<le> t')) \<and>
         (\<exists>w. generate_ambient R g = Some (Inr w))"
proof -
  have d: "0 \<le> td \<longrightarrow>
            (\<exists>t' i' s'. drone_body R td i sd = Inr ((t', i'), s') \<and> 35 \<le> t' - td \<and> t' - td \<le> 45) \<and>
            (\<exists>t' i' s'. drone_loop R td i sd = Some (Inr ((t', i'), s')) \<and> duration \<le> t')"
  proof
    assume t: "0 \<le> td"
    have "\<exists>t' i' s'. drone_body R td i sd = Inr ((t', i'), s') \<and> 35 \<le> t' - td \<and> t' - td \<le> 45"
      using drone_body_spec [OF assms t, of i sd] by (fastforce elim!: returnsE)
    moreover have "\<exists>t' i' s'. drone_loop R td i sd = Some (Inr ((t', i'), s')) \<and> duration \<le> t'"
      using drone_loop_spec [OF assms t, of i sd] by blast
    ultimately show "(\<exists>t' i' s'. drone_body R td i sd = Inr ((t', i'), s') \<and> 35 \<le> t' - td \<and> t' - td \<le> 45) \<and>
            (\<exists>t' i' s'. drone_loop R td i sd = Some (Inr ((t', i'), s')) \<and> duration \<le> t')" by blast
  qed
  have m: "8 \<le> tm \<and> m \<in> set mode_names \<longrightarrow>
            (tm < duration - 10 \<longrightarrow>
               (\<exists>t' m' p' s'. melody_body R tm m prev sm = Inr ((t', m', p'), s') \<and>
                  (3 \<le> t' - tm \<and> t' - tm \<le> 9 \<or> 12 \<le> t' - tm \<and> t' - tm \<le> 20))) \<and>
            (\<exists>t' m' p' s'. melody_loop R tm m prev sm = Some (Inr ((t', m', p'), s')) \<and>
               duration - 10 \<le> t')"
  proof (intro impI conjI)
    assume a: "8 \<le> tm \<and> m \<in> set mode_names"
    then show "\<exists>t' m' p' s'. melody_loop R tm m prev sm = Some (Inr ((t', m', p'), s')) \<and>
               duration - 10 \<le> t'"
      using melody_loop_spec [OF assms, of m tm prev sm] by blast
    assume "tm < duration - 10"
    then have "tm < 290" by (simp add: duration_def)
    with a show "\<exists>t' m' p' s'. melody_body R tm m prev sm = Inr ((t', m', p'), s') \<and>
                  (3 \<le> t' - tm \<and> t' - tm \<le> 9 \<or> 12 \<le> t' - tm \<and> t' - tm \<le> 20)"
      using melody_body_spec [OF assms, of m tm prev sm] by (fastforce elim!: returnsE)
  qed
  have s: "20 \<le> ts \<longrightarrow>
            (ts < duration - 5 \<longrightarrow>
               (\<exists>t' s'. sparkle_body R ts ss = Inr (t', s') \<and> 8 \<le> t' - ts \<and> t' - ts \<le> 18)) \<and>
            (\<exists>t' s'. sparkle_loop R ts ss = Some (Inr (t', s')) \<and> duration - 5 \<le> t')"
  proof (intro impI conjI)
    assume a: "20 \<le> ts"
    then show "\<exists>t' s'. sparkle_loop R ts ss = Some (Inr (t', s')) \<and> duration - 5 \<le> t'"
      using sparkle_loop_spec [OF assms, of ts ss] by blast
    assume "ts < duration - 5"
    then have "ts < 295" by (simp add: duration_def)
    with a show "\<exists>t' s'. sparkle_body R ts ss = Inr (t', s') \<and> 8 \<le> t' - ts \<and> t' - ts \<le> 18"
      using sparkle_body_spec [OF assms, of ts ss] by (fastforce elim!: returnsE)
  qed
  have b: "30 \<le> tb \<longrightarrow>
            (tb < duration - 20 \<longrightarrow>
               (\<exists>t' s'. bass_body R tb sb = Inr (t', s') \<and> 25 \<le> t' - tb \<and> t' - tb \<le> 45)) \<and>
            (\<exists>t' s'. bass_loop R tb sb = Some (Inr (t', s')) \<and> duration - 20 \<le> t')"
  proof (intro impI conjI)
    assume a: "30 \<le> tb"
    then show "\<exists>t' s'. bass_loop R tb sb = Some (Inr (t', s')) \<and> duration - 20 \<le> t'"
      using bass_loop_spec [OF assms, of tb sb] by blast
    assume "tb < duration - 20"
    then have "tb < 280" by (simp add: duration_def)
    with a show "\<exists>t' s'. bass_body R tb sb = Inr (t', s') \<and> 25 \<le> t' - tb \<and> t' - tb \<le> 45"
      using bass_body_spec [OF assms, of tb sb] by (fastforce elim!: returnsE)
  qed
  have g: "\<exists>w. generate_ambient R g = Some (Inr w)"
    using generate_notes [OF assms, of g] by blast
  from d m s b g show ?thesis by blast
qed

theorem layer_loops_terminate_witness:
  "(\<exists>t' i' s'. drone_body (const_rng 0) 0 0 \<lparr>rng = (), midi = new_midi\<rparr> = Inr ((t', i'), s') \<and>
       35 \<le> t' - 0 \<and> t' - 0 \<le> 45) \<and>
   (\<exists>t' i' s'. drone_loop (const_rng 0) 0 0 \<lparr>rng = (), midi = new_midi\<rparr> = Some (Inr ((t', i'), s')) \<and>
       duration \<le> t') \<and>
   (\<exists>t' m' p' s'. melody_body (const_rng 0) 8 ''lydian'' None \<lparr>rng = (), midi = new_midi\<rparr> =
       Inr ((t', m', p'), s') \<and> (3 \<le> t' - 8 \<and> t' - 8 \<le> 9 \<or> 12 \<le> t' - 8 \<and> t' - 8 \<le> 20)) \<and>
   (\<exists>t' m' p' s'. melody_loop (const_rng 0) 8 ''lydian'' None \<lparr>rng = (), midi = new_midi\<rparr> =
       Some (Inr ((t', m', p'), s')) \<and> duration - 10 \<le> t') \<and>
   (\<exists>t' s'. sparkle_body (const_rng 0) 20 \<lparr>rng = (), midi = new_midi\<rparr> = Inr (t', s') \<and>
       8 \<le> t' - 20 \<and> t' - 20 \<le> 18) \<and>
   (\<exists>t' s'. sparkle_loop (const_rng 0) 20 \<lparr>rng = (), midi = new_midi\<rparr> = Some (Inr (t', s')) \<and>
       duration - 5 \<le> t') \<and>
   (\<exists>t' s'. bass_body (const_rng 0) 30 \<lparr>rng = (), midi = new_midi\<rparr> = Inr (t', s') \<and>
       25 \<le> t' - 30 \<and> t' - 30 \<le> 45) \<and>
   (\<exists>t' s'. bass_loop (const_rng 0) 30 \<lparr>rng = (), midi = new_midi\<rparr> = Some (Inr (t', s')) \<and>
       duration - 20 \<le> t') \<and>
   (\<exists>w. generate_ambient (const_rng 0) () = Some (Inr w))"
proof -
  have a: "(0::real) \<le> 0" "(8::real) \<le> 8 \<and> ''lydian'' \<in> set mode_names" "(8::real) < duration - 10"
    "(20::real) \<le> 20" "(20::real) < duration - 5" "(30::real) \<le> 30" "(30::real) < duration - 20"
    by (simp_all add: mode_names_eq duration_def)
  show ?thesis
    using a layer_loops_terminate [OF rng_ok_zero, where td = 0 and i = 0
        and sd = "\<lparr>rng = (), midi = new_midi\<rparr>" and tm = 8 and m = "''lydian''" and prev = None
        and sm = "\<lparr>rng = (), midi = new_midi\<rparr>" and ts = 20
        and ss = "\<lparr>rng = (), midi = new_midi\<rparr>" and tb = 30
        and sb = "\<lparr>rng = (), midi = new_midi\<rparr>" and g = "()"]
    by blast
qed

text \<open>
  C9 as stated fails. In the run in which every \<^verbatim>\<open>random()\<close> is 0.25, every drone hold is
  37.5, the eighth hold brings the cursor to exactly 300, and no note event of the run has
  its start plus duration beyond 300.
\<close>

theorem no_event_beyond_the_end:
  "\<exists>w. generate_ambient (const_rng (1 / 4)) () = Some (Inr w) \<and>
     \<not> list_ex (\<lambda>n. 300 < n_time n + n_duration n) (m_notes (midi w))"
proof -
  have ok: "rng_ok (const_rng (1 / 4))" by (simp add: rng_ok_const)
  let ?s0 = "\<lparr>rng = (), midi = new_midi\<rparr>"
  obtain t1 i1 s1 w where d: "drone_loop (const_rng (1 / 4)) 0 0 ?s0 = Some (Inr ((t1, i1), s1))"
    and g: "generate_ambient (const_rng (1 / 4)) () = Some (Inr w)"
    and e: "extends late_note s1 w"
    using generate_run [OF ok, of "()"] by blast
  have "list_all (ends_by 300) (m_notes (midi s1))"
    using drone_quarter_loop [of 0 ?s0 0] d by (auto simp: new_midi_simps)
  then have "list_all (ends_by 300) (m_notes (midi w))"
    by (rule extends_list_all [OF e]) (rule late_note_ends)
  then have "\<not> list_ex (\<lambda>n. 300 < n_time n + n_duration n) (m_notes (midi w))"
    by (auto simp: list_all_iff list_ex_iff ends_by_def)
  with g show ?thesis by blast
qed

text \<open>
  C9 (amended). In every run the root note of the final drone iteration starts before 300
  and its start plus duration is at least 300: its duration is the whole hold (35 to 45) that
  moves the cursor from the note's start to the final drone cursor \<open>T\<close>, so the note ends
  exactly at \<open>T\<close>, and so does the fifth of that iteration. Every event of the run ends by
  \<open>T\<close>, and every event of the other four layers ends before 300; so some event ends after
  300 exactly when \<open>T\<close> is beyond 300. Nothing is clamped, truncated or rejected: at every
  cursor, however near to 300, a drone iteration advances the cursor by the hold and emits the
  root with the hold as duration, the fifth 2 later with the hold less 2, and, when the draw
  is below 0.4, the third 5 later with the hold less 8.
\<close>

theorem final_drone_notes_unclamped:
  assumes "rng_ok R"
  shows "(\<exists>p s'. getitem roots (i mod int (length roots)) = Inr p \<and>
            drone_body R t i s =
              Inr ((t + (35 + (45 - 35) * fst (random_f R (rng s))), i + 1), s') \<and>
            m_notes (midi s') = m_notes (midi s) @
              [\<lparr>n_track = 0, n_channel = 0, n_pitch = p, n_time = t,
                 n_duration = 35 + (45 - 35) * fst (random_f R (rng s)), n_volume = 30\<rparr>,
               \<lparr>n_track = 0, n_channel = 0, n_pitch = p + 7, n_time = t + 2,
                 n_duration = 35 + (45 - 35) * fst (random_f R (rng s)) - 2, n_volume = 25\<rparr>] @
              (if fst (random_f R (snd (random_f R (rng s)))) < 0.4
               then [\<lparr>n_track = 0, n_channel = 0,
                       n_pitch = (if fst (random_f R (snd (random_f R (snd (random_f R (rng s)))))) < 0.6
                                  then p + 4 else p + 3),
                       n_time = t + 5,
                       n_duration = 35 + (45 - 35) * fst (random_f R (rng s)) - 8,
                       n_volume = 20\<rparr>]
               else [])) \<and>
         (\<exists>T i1 s1 w p t0.
            drone_loop R 0 0 \<lparr>rng = g, midi = new_midi\<rparr> = Some (Inr ((T, i1), s1)) \<and>
            generate_ambient R g = Some (Inr w) \<and>
            t0 < duration \<and> duration \<le> T \<and> 35 \<le> T - t0 \<and> T - t0 \<le> 45 \<and>
            \<lparr>n_track = 0, n_channel = 0, n_pitch = p, n_time = t0, n_duration = T - t0,
              n_volume = 30\<rparr> \<in> set (m_notes (midi w)) \<and>
            \<lparr>n_track = 0, n_channel = 0, n_pitch = p + 7, n_time = t0 + 2, n_duration = T - t0 - 2,
              n_volume = 25\<rparr> \<in> set (m_notes (midi w)) \<and>
            (\<forall>n\<in>set (m_notes (midi w)). n_time n + n_duration n \<le> T) \<and>
            (\<forall>n\<in>set (m_notes (midi w)).
               n_channel n \<noteq> 0 \<or> n_volume n = 28 \<longrightarrow> n_time n + n_duration n < duration))"
  by (rule conjI [OF drone_body_notes drone_run_final [OF assms]])

theorem final_drone_notes_unclamped_witness:
  "(\<exists>s'. drone_body (const_rng 0) 280 8 \<lparr>rng = (), midi = new_midi\<rparr> = Inr ((315, 9), s') \<and>
      m_notes (midi s') =
        [\<lparr>n_track = 0, n_channel = 0, n_pitch = 48, n_time = 280, n_duration = 35, n_volume = 30\<rparr>,
         \<lparr>n_track = 0, n_channel = 0, n_pitch = 55, n_time = 282, n_duration = 33, n_volume = 25\<rparr>,
         \<lparr>n_track = 0, n_channel = 0, n_pitch = 52, n_time = 285, n_duration = 27, n_volume = 20\<rparr>]) \<and>
   (\<exists>T i1 s1 w p t0.
      drone_loop (const_rng 0) 0 0 \<lparr>rng = (), midi = new_midi\<rparr> = Some (Inr ((T, i1), s1)) \<and>
      generate_ambient (const_rng 0) () = Some (Inr w) \<and>
      t0 < duration \<and> duration \<le> T \<and> 35 \<le> T - t0 \<and> T - t0 \<le> 45 \<and>
      \<lparr>n_track = 0, n_channel = 0, n_pitch = p, n_time = t0, n_duration = T - t0,
        n_volume = 30\<rparr> \<in> set (m_notes (midi w)) \<and>
      \<lparr>n_track = 0, n_channel = 0, n_pitch = p + 7, n_time = t0 + 2, n_duration = T - t0 - 2,
        n_volume = 25\<rparr> \<in> set (m_notes (midi w)) \<and>
      (\<forall>n\<in>set (m_notes (midi w)). n_time n + n_duration n \<le> T) \<and>
      (\<forall>n\<in>set (m_notes (midi w)).
         n_channel n \<noteq> 0 \<or> n_volume n = 28 \<longrightarrow> n_time n + n_duration n < duration))"
proof -
  note th = final_drone_notes_unclamped [OF rng_ok_zero, of 8 280 "\<lparr>rng = (), midi = new_midi\<rparr>" "()"]
  from th [THEN conjunct1] obtain p s' where
    p: "getitem roots (8 mod int (length roots)) = Inr p"
    and b: "drone_body (const_rng 0) 280 8 \<lparr>rng = (), midi = new_midi\<rparr> =
        Inr ((280 + (35 + (45 - 35) * fst (random_f (const_rng 0) (rng \<lparr>rng = (), midi = new_midi\<rparr>))),
              8 + 1), s')"
    and n: "m_notes (midi s') = m_notes (midi \<lparr>rng = (), midi = new_midi\<rparr>) @
              [\<lparr>n_track = 0, n_channel = 0, n_pitch = p, n_time = 280,
                 n_duration = 35 + (45 - 35) * fst (random_f (const_rng 0) (rng \<lparr>rng = (), midi = new_midi\<rparr>)),
                 n_volume = 30\<rparr>,
               \<lparr>n_track = 0, n_channel = 0, n_pitch = p + 7, n_time = 280 + 2,
                 n_duration = 35 + (45 - 35) * fst (random_f (const_rng 0) (rng \<lparr>rng = (), midi = new_midi\<rparr>)) - 2,
                 n_volume = 25\<rparr>] @
              (if fst (random_f (const_rng 0) (snd (random_f (const_rng 0) (rng \<lparr>rng = (), midi = new_midi\<rparr>)))) < 0.4
               then [\<lparr>n_track = 0, n_channel = 0,
                       n_pitch = (if fst (random_f (const_rng 0) (snd (random_f (const_rng 0)
                                       (snd (random_f (const_rng 0) (rng \<lparr>rng = (), midi = new_midi\<rparr>)))))) < 0.6
                                  then p + 4 else p + 3),
                       n_time = 280 + 5,
                       n_duration = 35 + (45 - 35) * fst (random_f (const_rng 0) (rng \<lparr>rng = (), midi = new_midi\<rparr>)) - 8,
                       n_volume = 20\<rparr>]
               else [])"
    by (elim exE conjE)
  have "p = 48" using p by (simp add: getitem_def roots_def)
  then have "drone_body (const_rng 0) 280 8 \<lparr>rng = (), midi = new_midi\<rparr> = Inr ((315, 9), s') \<and>
      m_notes (midi s') =
        [\<lparr>n_track = 0, n_channel = 0, n_pitch = 48, n_time = 280, n_duration = 35, n_volume = 30\<rparr>,
         \<lparr>n_track = 0, n_channel = 0, n_pitch = 55, n_time = 282, n_duration = 33, n_volume = 25\<rparr>,
         \<lparr>n_track = 0, n_channel = 0, n_pitch = 52, n_time = 285, n_duration = 27, n_volume = 20\<rparr>]"
    using b n by (simp add: const_rng_def new_midi_simps)
  then have "\<exists>s'. drone_body (const_rng 0) 280 8 \<lparr>rng = (), midi = new_midi\<rparr> = Inr ((315, 9), s') \<and>
      m_notes (midi s') =
        [\<lparr>n_track = 0, n_channel = 0, n_pitch = 48, n_time = 280, n_duration = 35, n_volume = 30\<rparr>,
         \<lparr>n_track = 0, n_channel = 0, n_pitch = 55, n_time = 282, n_duration = 33, n_volume = 25\<rparr>,
         \<lparr>n_track = 0, n_channel = 0, n_pitch = 52, n_time = 285, n_duration = 27, n_volume = 20\<rparr>]"
    by (rule exI)
  then show ?thesis using th [THEN conjunct2] by (rule conjI)
qed

text \<open>
  C10. \<^verbatim>\<open>generate_ambient\<close> never seeds: its events are a function of the generator state
  it is called with, and it leaves the state it reached. When a first call returns and the
  state it leaves gives another first draw than the state it started from, the second call
  in the same process returns another event sequence. The witness is such a generator,
  started by the script's \<^verbatim>\<open>random.seed(123)\<close>.
\<close>

theorem second_call_depends_on_state:
  assumes "rng_ok R" "generate_ambient R g = Some (Inr w1)"
    "fst (random_f R (rng w1)) \<noteq> fst (random_f R g)"
  shows "\<exists>w2. generate_ambient R (rng w1) = Some (Inr w2) \<and> m_notes (midi w2) \<noteq> m_notes (midi w1)"
proof -
  obtain ns1 where n1: "m_notes (midi w1) = first_note (fst (random_f R g)) # ns1"
    using generate_notes [OF assms(1), of g] assms(2) by auto
  obtain w2 ns2 where g2: "generate_ambient R (rng w1) = Some (Inr w2)"
    and n2: "m_notes (midi w2) = first_note (fst (random_f R (rng w1))) # ns2"
    using generate_notes [OF assms(1), of "rng w1"] by blast
  have "m_notes (midi w2) \<noteq> m_notes (midi w1)"
    using n1 n2 assms(3) by (auto dest: first_note_inj)
  with g2 show ?thesis by blast
qed

theorem second_call_depends_on_state_witness:
  "\<exists>w1 w2. script_main flip_rng False = Some (Inr w1) \<and>
     generate_ambient flip_rng (rng w1) = Some (Inr w2) \<and> m_notes (midi w2) \<noteq> m_notes (midi w1)"
proof -
  obtain w1 h where g1: "generate_ambient flip_rng True = Some (Inr w1)"
    and r: "rng w1 = snd (random_f flip_rng h)"
    using generate_notes [OF rng_ok_flip, of True] by blast
  have "fst (random_f flip_rng (rng w1)) \<noteq> fst (random_f flip_rng True)"
    unfolding r by (simp add: flip_rng_def)
  from second_call_depends_on_state [OF rng_ok_flip g1 this] g1
  show ?thesis by (auto simp: script_main_def random_seed_def flip_rng_def)
qed

end
